theory Spec2Isabelle
  imports Complex_Main
begin

section \<open>Common conventions\<close>

text \<open>
  Python floats are modelled as exact reals, Python exceptions as values of \<open>error\<close> on
  the left of a sum. \<open>truediv\<close> is Python's \<^verbatim>\<open>/\<close> on numbers, which raises
  \<^verbatim>\<open>ZeroDivisionError\<close> on a zero divisor.
\<close>

datatype error = TypeError | KeyError | IndexError | ZeroDivisionError

definition truediv :: "real \<Rightarrow> real \<Rightarrow> error + real" where
  "truediv a b = (if b = 0 then Inl ZeroDivisionError else Inr (a / b))"

text \<open>\<^verbatim>\<open>xs[i]\<close> on a list, for the non-negative indices that \<^verbatim>\<open>enumerate\<close> yields.\<close>

definition getitem :: "'a list \<Rightarrow> nat \<Rightarrow> error + 'a" where
  "getitem xs i = (if i < length xs then Inr (xs ! i) else Inl IndexError)"

section \<open>creme/ensemble/hedging.py\<close>

text \<open>
  A \<^verbatim>\<open>HedgeRegressor\<close> is the list of its member regressors (the ensemble itself, as
  iterated by \<^verbatim>\<open>enumerate(self)\<close>), its loss, its learning rate and its weights. The
  members are opaque: \<open>predict\<close> and \<open>fit\<close> stand for their \<^verbatim>\<open>predict_one\<close> and
  \<^verbatim>\<open>fit_one\<close>, the latter returning the mutated member.
\<close>

record 'm hedge =
  models :: "'m list"
  loss :: "real \<Rightarrow> real \<Rightarrow> real"
  learning_rate :: real
  weights :: "real list"

text \<open>
  \<^verbatim>\<open>__init__\<close>. The base constructor \<^verbatim>\<open>base.Ensemble.__init__\<close> and the default loss
  \<^verbatim>\<open>optim.losses.Squared()\<close> live outside this file and are parameters.
\<close>

definition HedgeRegressor_init ::
  "('m list \<Rightarrow> error + 'm list) \<Rightarrow> (real \<Rightarrow> real \<Rightarrow> real) \<Rightarrow>
   'm list \<Rightarrow> (real \<Rightarrow> real \<Rightarrow> real) option \<Rightarrow> real \<Rightarrow> error + 'm hedge" where
  "HedgeRegressor_init Ensemble_init Squared regressors loss_arg learning_rate_arg =
     (case Ensemble_init regressors of
        Inl e \<Rightarrow> Inl e
      | Inr ms \<Rightarrow>
          Inr \<lparr>models = ms,
               loss = (case loss_arg of None \<Rightarrow> Squared | Some l \<Rightarrow> l),
               learning_rate = learning_rate_arg,
               weights = replicate (length regressors) 1\<rparr>)"

text \<open>
  The body of the \<^verbatim>\<open>for i, regressor in enumerate(self)\<close> loop of
  \<^verbatim>\<open>fit_predict_one\<close>. The loop state is \<open>(y_pred_mean, total, weights, fitted)\<close>,
  where \<open>fitted\<close> collects the members already trained; \<open>n\<close> is \<^verbatim>\<open>len(self)\<close>.
\<close>

definition fit_predict_step ::
  "('m \<Rightarrow> 'x \<Rightarrow> real) \<Rightarrow> ('m \<Rightarrow> 'x \<Rightarrow> real \<Rightarrow> 'm) \<Rightarrow> (real \<Rightarrow> real \<Rightarrow> real) \<Rightarrow> real \<Rightarrow>
   nat \<Rightarrow> 'x \<Rightarrow> real \<Rightarrow> nat \<Rightarrow> 'm \<Rightarrow> real \<times> real \<times> real list \<times> 'm list \<Rightarrow>
   error + real \<times> real \<times> real list \<times> 'm list" where
  "fit_predict_step predict fit lossf lr n x y i regressor st =
     (case st of (y_pred_mean, tot, ws, fitted) \<Rightarrow>
        let y_pred = predict regressor x in
        (case getitem ws i of
           Inl e \<Rightarrow> Inl e
         | Inr w \<Rightarrow>
             (case truediv (w * (y_pred - y_pred_mean)) (real n) of
                Inl e \<Rightarrow> Inl e
              | Inr d \<Rightarrow>
                  let y_pred_mean' = y_pred_mean + d;
                      l = lossf y y_pred;
                      w' = w * exp (- lr * l);
                      ws' = ws[i := w'];
                      tot' = tot + w'
                  in Inr (y_pred_mean', tot', ws', fitted @ [fit regressor x y]))))"

fun fit_predict_loop ::
  "('m \<Rightarrow> 'x \<Rightarrow> real) \<Rightarrow> ('m \<Rightarrow> 'x \<Rightarrow> real \<Rightarrow> 'm) \<Rightarrow> (real \<Rightarrow> real \<Rightarrow> real) \<Rightarrow> real \<Rightarrow>
   nat \<Rightarrow> 'x \<Rightarrow> real \<Rightarrow> nat \<Rightarrow> 'm list \<Rightarrow> real \<times> real \<times> real list \<times> 'm list \<Rightarrow>
   error + real \<times> real \<times> real list \<times> 'm list" where
  "fit_predict_loop predict fit lossf lr n x y i [] st = Inr st"
| "fit_predict_loop predict fit lossf lr n x y i (regressor # rest) st =
     (case fit_predict_step predict fit lossf lr n x y i regressor st of
        Inl e \<Rightarrow> Inl e
      | Inr st' \<Rightarrow> fit_predict_loop predict fit lossf lr n x y (Suc i) rest st')"

text \<open>
  The loop of \<^verbatim>\<open>fit_predict_one\<close> run from its initial state: the result is the
  prediction, the total, the weights after the multiplicative update and before any
  renormalisation, and the trained members.
\<close>

definition fit_predict_pass ::
  "('m \<Rightarrow> 'x \<Rightarrow> real) \<Rightarrow> ('m \<Rightarrow> 'x \<Rightarrow> real \<Rightarrow> 'm) \<Rightarrow> 'm hedge \<Rightarrow> 'x \<Rightarrow> real \<Rightarrow>
   error + real \<times> real \<times> real list \<times> 'm list" where
  "fit_predict_pass predict fit h x y =
     fit_predict_loop predict fit (loss h) (learning_rate h) (length (models h)) x y 0
       (models h) (0, 0, weights h, [])"

text \<open>
  \<^verbatim>\<open>fit_predict_one\<close>: the loop, then \<^verbatim>\<open>if total:\<close> divides every weight by the
  total (the divisor is nonzero there). It returns the prediction and the new state.
\<close>

definition fit_predict_one ::
  "('m \<Rightarrow> 'x \<Rightarrow> real) \<Rightarrow> ('m \<Rightarrow> 'x \<Rightarrow> real \<Rightarrow> 'm) \<Rightarrow> 'm hedge \<Rightarrow> 'x \<Rightarrow> real \<Rightarrow>
   error + real \<times> 'm hedge" where
  "fit_predict_one predict fit h x y =
     (case fit_predict_pass predict fit h x y of
        Inl e \<Rightarrow> Inl e
      | Inr (y_pred_mean, tot, ws, fitted) \<Rightarrow>
          Inr (y_pred_mean,
               h\<lparr>models := fitted,
                 weights := (if tot \<noteq> 0 then map (\<lambda>w. w / tot) ws else ws)\<rparr>))"

definition fit_one ::
  "('m \<Rightarrow> 'x \<Rightarrow> real) \<Rightarrow> ('m \<Rightarrow> 'x \<Rightarrow> real \<Rightarrow> 'm) \<Rightarrow> 'm hedge \<Rightarrow> 'x \<Rightarrow> real \<Rightarrow> error + 'm hedge" where
  "fit_one predict fit h x y =
     (case fit_predict_one predict fit h x y of Inl e \<Rightarrow> Inl e | Inr (_, h') \<Rightarrow> Inr h')"

text \<open>\<^verbatim>\<open>predict_one\<close>: the sum over \<^verbatim>\<open>zip(self, self.weights)\<close>; no state is touched.\<close>

definition predict_one :: "('m \<Rightarrow> 'x \<Rightarrow> real) \<Rightarrow> 'm hedge \<Rightarrow> 'x \<Rightarrow> real" where
  "predict_one predict h x =
     sum_list (map (\<lambda>(model, weight). predict model x * weight) (zip (models h) (weights h)))"

section \<open>creme/facto/hofm.py\<close>

subsection \<open>Python helpers used by the module\<close>

text \<open>Running a fallible step over a list, stopping at the first error.\<close>

fun map_result :: "('a \<Rightarrow> error + 'b) \<Rightarrow> 'a list \<Rightarrow> error + 'b list" where
  "map_result g [] = Inr []"
| "map_result g (a # as) =
     (case g a of
        Inl e \<Rightarrow> Inl e
      | Inr b \<Rightarrow> (case map_result g as of Inl e \<Rightarrow> Inl e | Inr bs \<Rightarrow> Inr (b # bs)))"

fun fold_result :: "('a \<Rightarrow> 's \<Rightarrow> error + 's) \<Rightarrow> 'a list \<Rightarrow> 's \<Rightarrow> error + 's" where
  "fold_result step [] s = Inr s"
| "fold_result step (a # as) s =
     (case step a s of Inl e \<Rightarrow> Inl e | Inr s' \<Rightarrow> fold_result step as s')"

text \<open>
  An instance \<^verbatim>\<open>x\<close> is a dict from feature keys to numbers: an association list in
  insertion order, whose keys are distinct. \<^verbatim>\<open>x[j]\<close> raises \<^verbatim>\<open>KeyError\<close> on a missing key.
\<close>

definition keys :: "('k \<times> 'v) list \<Rightarrow> 'k list" where
  "keys x = map fst x"

definition dict_get :: "('k \<times> 'v) list \<Rightarrow> 'k \<Rightarrow> error + 'v" where
  "dict_get x j = (case map_of x j of None \<Rightarrow> Inl KeyError | Some v \<Rightarrow> Inr v)"

text \<open>
  \<^verbatim>\<open>itertools.combinations(iterable, r)\<close>: the length-\<open>r\<close> subsequences of the input, in
  lexicographic order of positions.
\<close>

fun combinations :: "'a list \<Rightarrow> nat \<Rightarrow> 'a list list" where
  "combinations xs 0 = [[]]"
| "combinations [] (Suc r) = []"
| "combinations (x # xs) (Suc r) = map ((#) x) (combinations xs r) @ combinations xs (Suc r)"

text \<open>
  \<^verbatim>\<open>functools.reduce(lambda x, y: x * y, iterable)\<close> with no initial value: a left fold
  from the first element, \<^verbatim>\<open>TypeError\<close> on an empty iterable.
\<close>

fun reduce_mul :: "real list \<Rightarrow> error + real" where
  "reduce_mul [] = Inl TypeError"
| "reduce_mul (a # as) = Inr (foldl (*) a as)"

text \<open>\<^verbatim>\<open>range(2, degree + 1)\<close> and \<^verbatim>\<open>range(n_factors)\<close>, on Python's unbounded integers.\<close>

definition orders :: "int \<Rightarrow> nat list" where
  "orders d = map nat [2..d]"

definition factors :: "int \<Rightarrow> nat list" where
  "factors n = [0..<nat n]"

subsection \<open>The model state\<close>

text \<open>
  Of the attributes that \<^verbatim>\<open>BaseFM.__init__\<close> sets, the ones this module reads. The
  latent table \<^verbatim>\<open>self.latents[j][l][f]\<close> is a nested \<^verbatim>\<open>defaultdict\<close> filled by the latent
  initialiser on first access: it is modelled as a total table that already holds the
  value the initialiser yields for an entry not seen before. \<open>latent_optimizer\<close> is the
  internal state of the latent optimiser.
\<close>

record ('k, 'o) base_fm =
  n_factors :: int
  latents :: "'k \<Rightarrow> nat \<Rightarrow> nat \<Rightarrow> real"
  l1_latent :: real
  l2_latent :: real
  latent_optimizer :: 'o

record ('k, 'o) hofm = "('k, 'o) base_fm" +
  degree :: int

text \<open>
  \<^verbatim>\<open>HOFM.__init__\<close>: the base constructor gets every argument but \<^verbatim>\<open>degree\<close>, then
  \<^verbatim>\<open>self.degree = degree\<close>. \<^verbatim>\<open>BaseFM.__init__\<close> is outside this file and is a parameter,
  with \<open>base_args\<close> the arguments handed to it.
\<close>

definition HOFM_init ::
  "('a \<Rightarrow> error + ('k, 'o) base_fm) \<Rightarrow> int \<Rightarrow> 'a \<Rightarrow> error + ('k, 'o) hofm" where
  "HOFM_init BaseFM_init degree_arg base_args =
     (case BaseFM_init base_args of
        Inl e \<Rightarrow> Inl e
      | Inr b \<Rightarrow>
          Inr \<lparr>n_factors = n_factors b, latents = latents b, l1_latent = l1_latent b,
               l2_latent = l2_latent b, latent_optimizer = latent_optimizer b,
               degree = degree_arg\<rparr>)"

subsection \<open>Interactions\<close>

text \<open>\<^verbatim>\<open>functools.reduce(lambda x, y: x * y, (x[j] for j in combination))\<close>.\<close>

definition feature_product :: "('k \<times> real) list \<Rightarrow> 'k list \<Rightarrow> error + real" where
  "feature_product x combination =
     (case map_result (dict_get x) combination of Inl e \<Rightarrow> Inl e | Inr vs \<Rightarrow> reduce_mul vs)"

text \<open>\<^verbatim>\<open>functools.reduce(lambda x, y: x * y, (v[j][l][f] for j in combination))\<close>.\<close>

definition latent_product :: "('k, 'o, 'z) hofm_scheme \<Rightarrow> nat \<Rightarrow> nat \<Rightarrow> 'k list \<Rightarrow> error + real" where
  "latent_product m l f combination = reduce_mul (map (\<lambda>j. latents m j l f) combination)"

definition calculate_interaction ::
  "('k, 'o, 'z) hofm_scheme \<Rightarrow> ('k \<times> real) list \<Rightarrow> nat \<Rightarrow> 'k list \<Rightarrow> error + real" where
  "calculate_interaction m x l combination =
     (case feature_product x combination of
        Inl e \<Rightarrow> Inl e
      | Inr fp \<Rightarrow>
          (case map_result (\<lambda>f. latent_product m l f combination) (factors (n_factors m)) of
             Inl e \<Rightarrow> Inl e
           | Inr ps \<Rightarrow> Inr (fp * sum_list ps)))"

text \<open>
  \<^verbatim>\<open>_calculate_interactions\<close>: the sum of the generator over every order and every
  combination of that order (in exact arithmetic the order of the additions is immaterial).
\<close>

definition calculate_interactions ::
  "('k, 'o, 'z) hofm_scheme \<Rightarrow> ('k \<times> real) list \<Rightarrow> error + real" where
  "calculate_interactions m x =
     (case map_result (\<lambda>(l, combination). calculate_interaction m x l combination)
             (concat (map (\<lambda>l. map (Pair l) (combinations (keys x) l)) (orders (degree m)))) of
        Inl e \<Rightarrow> Inl e
      | Inr ts \<Rightarrow> Inr (sum_list ts))"

subsection \<open>Latent updates\<close>

text \<open>
  \<^verbatim>\<open>gradients\<close> is a nested \<^verbatim>\<open>defaultdict(float)\<close>: a total table that is 0 where
  nothing was added. \<open>grad_add\<close> is \<^verbatim>\<open>gradients[j][l][f] += d\<close>.
\<close>

definition grad_add ::
  "('k \<Rightarrow> nat \<Rightarrow> nat \<Rightarrow> real) \<Rightarrow> 'k \<Rightarrow> nat \<Rightarrow> nat \<Rightarrow> real \<Rightarrow> ('k \<Rightarrow> nat \<Rightarrow> nat \<Rightarrow> real)" where
  "grad_add G j l f d = G(j := (G j)(l := (G j l)(f := G j l f + d)))"

text \<open>
  The first loop nest of \<^verbatim>\<open>_update_latents\<close>, innermost loop first: over the keys of
  one combination, over the factors, over the combinations of one order, over the orders.
\<close>

definition gradients_keys ::
  "('k, 'o, 'z) hofm_scheme \<Rightarrow> nat \<Rightarrow> nat \<Rightarrow> real \<Rightarrow> real \<Rightarrow> 'k list \<Rightarrow>
   ('k \<Rightarrow> nat \<Rightarrow> nat \<Rightarrow> real) \<Rightarrow> error + ('k \<Rightarrow> nat \<Rightarrow> nat \<Rightarrow> real)" where
  "gradients_keys m l f fp lp combination =
     fold_result (\<lambda>j G.
       case truediv (fp * lp) (latents m j l f) of
         Inl e \<Rightarrow> Inl e
       | Inr d \<Rightarrow> Inr (grad_add G j l f d)) combination"

definition gradients_factors ::
  "('k, 'o, 'z) hofm_scheme \<Rightarrow> nat \<Rightarrow> real \<Rightarrow> 'k list \<Rightarrow>
   ('k \<Rightarrow> nat \<Rightarrow> nat \<Rightarrow> real) \<Rightarrow> error + ('k \<Rightarrow> nat \<Rightarrow> nat \<Rightarrow> real)" where
  "gradients_factors m l fp combination =
     fold_result (\<lambda>f G.
       case latent_product m l f combination of
         Inl e \<Rightarrow> Inl e
       | Inr lp \<Rightarrow> gradients_keys m l f fp lp combination G) (factors (n_factors m))"

definition gradients_combinations ::
  "('k, 'o, 'z) hofm_scheme \<Rightarrow> ('k \<times> real) list \<Rightarrow> nat \<Rightarrow>
   ('k \<Rightarrow> nat \<Rightarrow> nat \<Rightarrow> real) \<Rightarrow> error + ('k \<Rightarrow> nat \<Rightarrow> nat \<Rightarrow> real)" where
  "gradients_combinations m x l =
     fold_result (\<lambda>combination G.
       case feature_product x combination of
         Inl e \<Rightarrow> Inl e
       | Inr fp \<Rightarrow> gradients_factors m l fp combination G) (combinations (keys x) l)"

definition update_latents_gradients ::
  "('k, 'o, 'z) hofm_scheme \<Rightarrow> ('k \<times> real) list \<Rightarrow> error + ('k \<Rightarrow> nat \<Rightarrow> nat \<Rightarrow> real)" where
  "update_latents_gradients m x =
     fold_result (gradients_combinations m x) (orders (degree m)) (\<lambda>j l f. 0)"

text \<open>
  The second loop nest, \<^verbatim>\<open>self.latents[j][l] = self.latent_optimizer.update_after_pred(w, g)\<close>.
  \<^verbatim>\<open>v\<close> is another name of \<^verbatim>\<open>self.latents\<close>, so \<open>w\<close> and the penalty terms are read from
  the table as it is when the pair \<open>(j, l)\<close> is reached. The optimiser's
  \<^verbatim>\<open>update_after_pred\<close> (\<open>upd\<close>, threading the optimiser's state) and \<^verbatim>\<open>utils.math.sign\<close>
  (\<open>sign\<close>) are outside this file and are parameters. \<open>g\<close> is the dict
  \<^verbatim>\<open>{f: ... for f in range(self.n_factors)}\<close>.
\<close>

definition latent_step ::
  "('o \<Rightarrow> (nat \<Rightarrow> real) \<Rightarrow> (nat \<times> real) list \<Rightarrow> 'o \<times> (nat \<Rightarrow> real)) \<Rightarrow> (real \<Rightarrow> real) \<Rightarrow>
   int \<Rightarrow> real \<Rightarrow> real \<Rightarrow> real \<Rightarrow> ('k \<Rightarrow> nat \<Rightarrow> nat \<Rightarrow> real) \<Rightarrow> 'k \<Rightarrow> nat \<Rightarrow>
   ('k \<Rightarrow> nat \<Rightarrow> nat \<Rightarrow> real) \<times> 'o \<Rightarrow> ('k \<Rightarrow> nat \<Rightarrow> nat \<Rightarrow> real) \<times> 'o" where
  "latent_step upd sign n l1 l2 g_loss G j l st =
     (case st of (v, opt) \<Rightarrow>
        (case upd opt (v j l)
                (map (\<lambda>f. (f, g_loss * G j l f + l1 * sign (v j l f) + 2 * l2 * v j l f))
                   (factors n)) of
           (opt', w') \<Rightarrow> (v(j := (v j)(l := w')), opt')))"

definition update_latents ::
  "('o \<Rightarrow> (nat \<Rightarrow> real) \<Rightarrow> (nat \<times> real) list \<Rightarrow> 'o \<times> (nat \<Rightarrow> real)) \<Rightarrow> (real \<Rightarrow> real) \<Rightarrow>
   ('k, 'o) hofm \<Rightarrow> ('k \<times> real) list \<Rightarrow> real \<Rightarrow> error + ('k, 'o) hofm" where
  "update_latents upd sign m x g_loss =
     (case update_latents_gradients m x of
        Inl e \<Rightarrow> Inl e
      | Inr G \<Rightarrow>
          (case fold (\<lambda>j. fold (latent_step upd sign (n_factors m) (l1_latent m) (l2_latent m)
                                   g_loss G j) (orders (degree m)))
                  (keys x) (latents m, latent_optimizer m) of
             (v', opt') \<Rightarrow> Inr (m\<lparr>latents := v', latent_optimizer := opt'\<rparr>)))"

section \<open>Reference notions used in the statements\<close>

text \<open>
  The weights of a Hedge ensemble after the multiplicative update of one sample and
  before renormalisation: \<open>weight[i] * exp(-learning_rate * loss_i)\<close>, member by member.
\<close>

definition reweighted :: "('m \<Rightarrow> 'x \<Rightarrow> real) \<Rightarrow> 'm hedge \<Rightarrow> 'x \<Rightarrow> real \<Rightarrow> real list" where
  "reweighted predict h x y =
     map (\<lambda>(w, r). w * exp (- learning_rate h * loss h y (predict r x)))
       (zip (weights h) (models h))"

text \<open>One weight per member, every weight strictly positive.\<close>

definition positive_weights :: "'m hedge \<Rightarrow> bool" where
  "positive_weights h \<longleftrightarrow>
     length (weights h) = length (models h) \<and> list_all (\<lambda>w. 0 < w) (weights h)"

text \<open>The value of a feature in an instance; an absent key counts as 0.\<close>

definition value_at :: "('k \<times> real) list \<Rightarrow> 'k \<Rightarrow> real" where
  "value_at x j = (case map_of x j of None \<Rightarrow> 0 | Some v \<Rightarrow> v)"

text \<open>
  The interaction sum as the specification words it: over each order from 2 to the degree
  and each set of that many distinct keys, the product of the feature values times the
  factor-wise dot product of the latent vectors.
\<close>

definition interactions_spec :: "('k, 'o, 'z) hofm_scheme \<Rightarrow> ('k \<times> real) list \<Rightarrow> real" where
  "interactions_spec m x =
     (\<Sum>l\<in>{2..degree m}.
        \<Sum>C | C \<subseteq> set (keys x) \<and> card C = nat l.
          (\<Prod>j\<in>C. value_at x j)
            * (\<Sum>f\<in>{0..<nat (n_factors m)}. \<Prod>j\<in>C. latents m j (nat l) f))"

text \<open>The term that one combination of one order adds to the interaction sum.\<close>

definition interaction_term ::
  "('k, 'o, 'z) hofm_scheme \<Rightarrow> ('k \<times> real) list \<Rightarrow> nat \<Rightarrow> 'k list \<Rightarrow> real" where
  "interaction_term m x l c =
     prod_list (map (value_at x) c)
       * sum_list (map (\<lambda>f. prod_list (map (\<lambda>j. latents m j l f) c)) (factors (n_factors m)))"

text \<open>
  What one combination \<open>c\<close> of order \<open>l\<close> adds to \<^verbatim>\<open>gradients[j][l][f]\<close> for a key \<open>j\<close>
  of the combination: \<^verbatim>\<open>feature_product * latent_product / v[j][l][f]\<close>.
\<close>

definition contribution ::
  "('k, 'o, 'z) hofm_scheme \<Rightarrow> ('k \<times> real) list \<Rightarrow> nat \<Rightarrow> nat \<Rightarrow> 'k list \<Rightarrow> 'k \<Rightarrow> real" where
  "contribution m x l f c j =
     prod_list (map (value_at x) c) * prod_list (map (\<lambda>k. latents m k l f) c) / latents m j l f"

text \<open>
  The accumulated table of raw gradients: for an order in \<^verbatim>\<open>range(2, degree + 1)\<close> and a
  factor in \<^verbatim>\<open>range(n_factors)\<close>, the sum of the contributions of the combinations that
  contain the key; 0 elsewhere.
\<close>

definition gradients_spec ::
  "('k, 'o, 'z) hofm_scheme \<Rightarrow> ('k \<times> real) list \<Rightarrow> 'k \<Rightarrow> nat \<Rightarrow> nat \<Rightarrow> real" where
  "gradients_spec m x j l f =
     (if l \<in> set (orders (degree m)) \<and> f \<in> set (factors (n_factors m))
      then sum_list (map (\<lambda>c. if j \<in> set c then contribution m x l f c j else 0)
                      (combinations (keys x) l))
      else 0)"

text \<open>
  No latent component that the accumulation divides by is zero: those of the keys of the
  instance, at every order from 2 to the degree and every factor.
\<close>

definition latents_nonzero :: "('k, 'o, 'z) hofm_scheme \<Rightarrow> ('k \<times> real) list \<Rightarrow> bool" where
  "latents_nonzero m x \<longleftrightarrow>
     list_all (\<lambda>j. list_all (\<lambda>l. list_all (\<lambda>f. latents m j l f \<noteq> 0) (factors (n_factors m)))
                      (orders (degree m))) (keys x)"

text \<open>
  The gradient dict that \<^verbatim>\<open>_update_latents\<close> hands to the optimiser for the pair \<open>(j, l)\<close>,
  computed from the latent table of the state \<open>m\<close> and a table \<open>G\<close> of raw gradients.
\<close>

definition penalized_gradient ::
  "(real \<Rightarrow> real) \<Rightarrow> ('k, 'o, 'z) hofm_scheme \<Rightarrow> ('k \<Rightarrow> nat \<Rightarrow> nat \<Rightarrow> real) \<Rightarrow> real \<Rightarrow>
   'k \<Rightarrow> nat \<Rightarrow> (nat \<times> real) list" where
  "penalized_gradient sign m G g_loss j l =
     map (\<lambda>f. (f, g_loss * G j l f + l1_latent m * sign (latents m j l f)
                   + 2 * l2_latent m * latents m j l f))
       (factors (n_factors m))"

text \<open>
  An optimiser that behaves as \<open>upd\<close> and also appends the arguments \<open>(w, g)\<close> of every
  call of \<^verbatim>\<open>update_after_pred\<close> to a log kept beside its state.
\<close>

definition recording ::
  "('o \<Rightarrow> (nat \<Rightarrow> real) \<Rightarrow> (nat \<times> real) list \<Rightarrow> 'o \<times> (nat \<Rightarrow> real)) \<Rightarrow>
   'o \<times> ((nat \<Rightarrow> real) \<times> (nat \<times> real) list) list \<Rightarrow> (nat \<Rightarrow> real) \<Rightarrow> (nat \<times> real) list \<Rightarrow>
   ('o \<times> ((nat \<Rightarrow> real) \<times> (nat \<times> real) list) list) \<times> (nat \<Rightarrow> real)" where
  "recording upd st w g =
     (case st of (opt, calls) \<Rightarrow>
        (case upd opt w g of (opt', w') \<Rightarrow> ((opt', calls @ [(w, g)]), w')))"


section \<open>Properties of the Hedge ensemble\<close>

lemma step_ok:
  assumes "0 < n" "i < length ws"
  shows "fit_predict_step predict fit lossf lr n x y i r (m, t, ws, fs) =
         Inr (m + ws ! i * (predict r x - m) / real n,
              t + ws ! i * exp (- lr * lossf y (predict r x)),
              ws[i := ws ! i * exp (- lr * lossf y (predict r x))],
              fs @ [fit r x y])"
  using assms by (simp add: fit_predict_step_def getitem_def truediv_def Let_def)

lemma loop_weights:
  assumes "0 < n" "i + length rs \<le> length ws"
  shows "\<exists>m' t' ws'. fit_predict_loop predict fit lossf lr n x y i rs (m, t, ws, fs) =
            Inr (m', t', ws', fs @ map (\<lambda>r. fit r x y) rs)
         \<and> length ws' = length ws
         \<and> (\<forall>k < length ws. ws' ! k =
               (if i \<le> k \<and> k < i + length rs
                then ws ! k * exp (- lr * lossf y (predict (rs ! (k - i)) x)) else ws ! k))
         \<and> t' = t + sum_list (map (\<lambda>k. ws' ! k) [i..<i + length rs])"
  using assms
proof (induction rs arbitrary: i m t ws fs)
  case Nil
  then show ?case by simp
next
  case (Cons r rs)
  let ?w = "ws ! i * exp (- lr * lossf y (predict r x))"
  let ?ws1 = "ws[i := ?w]"
  have i: "i < length ws" using Cons.prems by simp
  have len: "Suc i + length rs \<le> length ?ws1" using Cons.prems by simp
  from Cons.IH[OF Cons.prems(1) len, of "m + ws ! i * (predict r x - m) / real n" "t + ?w" "fs @ [fit r x y]"]
  obtain m' t' ws' where
    run: "fit_predict_loop predict fit lossf lr n x y (Suc i) rs
            (m + ws ! i * (predict r x - m) / real n, t + ?w, ?ws1, fs @ [fit r x y]) =
          Inr (m', t', ws', (fs @ [fit r x y]) @ map (\<lambda>r. fit r x y) rs)"
    and l: "length ws' = length ?ws1"
    and v: "\<forall>k < length ?ws1. ws' ! k =
               (if Suc i \<le> k \<and> k < Suc i + length rs
                then ?ws1 ! k * exp (- lr * lossf y (predict (rs ! (k - Suc i)) x)) else ?ws1 ! k)"
    and s: "t' = (t + ?w) + sum_list (map (\<lambda>k. ws' ! k) [Suc i..<Suc i + length rs])"
    by blast
  have wi: "ws' ! i = ?w" using v i by simp
  have vals: "\<forall>k < length ws. ws' ! k =
               (if i \<le> k \<and> k < i + length (r # rs)
                then ws ! k * exp (- lr * lossf y (predict ((r # rs) ! (k - i)) x)) else ws ! k)"
  proof (intro allI impI)
    fix k assume k: "k < length ws"
    show "ws' ! k = (if i \<le> k \<and> k < i + length (r # rs)
                then ws ! k * exp (- lr * lossf y (predict ((r # rs) ! (k - i)) x)) else ws ! k)"
    proof (cases "k = i")
      case True
      then show ?thesis using wi by simp
    next
      case False
      then have "(r # rs) ! (k - i) = rs ! (k - Suc i)" if "i \<le> k"
      proof -
        from that False have "k - i = Suc (k - Suc i)" by simp
        then show ?thesis by simp
      qed
      then show ?thesis using v k False by auto
    qed
  qed
  have "[i..<i + length (r # rs)] = i # [Suc i..<Suc i + length rs]"
    using upt_conv_Cons[of i "Suc (i + length rs)"] by simp
  then have tot: "t' = t + sum_list (map (\<lambda>k. ws' ! k) [i..<i + length (r # rs)])"
    using s wi by simp
  show ?case
    using run l vals tot i Cons.prems(1) by (simp add: step_ok)
qed

lemma pass_char:
  assumes len: "length (weights h) = length (models h)"
  shows "\<exists>m. fit_predict_pass predict fit h x y =
           Inr (m, sum_list (reweighted predict h x y), reweighted predict h x y,
                map (\<lambda>r. fit r x y) (models h))"
proof (cases "models h = []")
  case True
  then show ?thesis using len by (simp add: fit_predict_pass_def reweighted_def)
next
  case False
  then have n: "0 < length (models h)" by simp
  have b: "0 + length (models h) \<le> length (weights h)" using len by simp
  from loop_weights[OF n b, of predict fit "loss h" "learning_rate h" x y 0 0 "[]"]
  obtain m' t' ws' where
    run: "fit_predict_pass predict fit h x y = Inr (m', t', ws', map (\<lambda>r. fit r x y) (models h))"
    and l: "length ws' = length (weights h)"
    and v: "\<forall>k < length (weights h). ws' ! k =
              weights h ! k * exp (- learning_rate h * loss h y (predict (models h ! k) x))"
    and s: "t' = sum_list (map (\<lambda>k. ws' ! k) [0..<length (models h)])"
    unfolding fit_predict_pass_def using len by auto
  have eq: "ws' = reweighted predict h x y"
    by (rule nth_equalityI) (use l v len in \<open>auto simp: reweighted_def\<close>)
  have "map (\<lambda>k. ws' ! k) [0..<length (models h)] = ws'"
    using map_nth[of ws'] l len by simp
  with s have "t' = sum_list ws'" by simp
  with run eq show ?thesis by auto
qed

lemma reweighted_length:
  "length (weights h) = length (models h) \<Longrightarrow> length (reweighted predict h x y) = length (models h)"
  by (simp add: reweighted_def)

lemma reweighted_nth:
  "length (weights h) = length (models h) \<Longrightarrow> k < length (models h) \<Longrightarrow>
   reweighted predict h x y ! k =
     weights h ! k * exp (- learning_rate h * loss h y (predict (models h ! k) x))"
  by (simp add: reweighted_def)

lemma sum_list_divide: "sum_list (map (\<lambda>w. w / c) ws) = sum_list ws / (c::real)"
  by (induction ws) (simp_all add: add_divide_distrib)

text \<open>
  Claim C4. On a state with one weight per member, \<^verbatim>\<open>fit_predict_one\<close> and \<^verbatim>\<open>fit_one\<close>
  return without error and keep one weight per member, so the property carries over to
  every later call. With \<open>t\<close> the total of the weights after the multiplicative update:
  if \<open>t\<close> is nonzero the new weights sum to 1; if \<open>t\<close> is 0 the new weights are the
  post-multiplicative ones \<open>weight[i] * exp(-learning_rate * loss_i)\<close>, undivided.
\<close>

theorem hedge_weights_simplex:
  assumes len: "length (weights h) = length (models h)"
  shows "\<exists>m t ws fs h'.
           fit_predict_pass predict fit h x y = Inr (m, t, ws, fs)
         \<and> ws = reweighted predict h x y \<and> t = sum_list ws
         \<and> fit_predict_one predict fit h x y = Inr (m, h')
         \<and> fit_one predict fit h x y = Inr h'
         \<and> length (weights h') = length (models h')
         \<and> (t \<noteq> 0 \<longrightarrow> sum_list (weights h') = 1)
         \<and> (t = 0 \<longrightarrow> weights h' = ws)"
proof -
  let ?ws = "reweighted predict h x y"
  from pass_char[OF len, of predict fit x y] obtain m where
    run: "fit_predict_pass predict fit h x y =
            Inr (m, sum_list ?ws, ?ws, map (\<lambda>r. fit r x y) (models h))" by blast
  let ?h' = "h\<lparr>models := map (\<lambda>r. fit r x y) (models h),
               weights := (if sum_list ?ws \<noteq> 0 then map (\<lambda>w. w / sum_list ?ws) ?ws else ?ws)\<rparr>"
  have one: "fit_predict_one predict fit h x y = Inr (m, ?h')"
    by (simp add: fit_predict_one_def run)
  have fo: "fit_one predict fit h x y = Inr ?h'"
    by (simp add: fit_one_def one)
  have l: "length (weights ?h') = length (models ?h')"
    using reweighted_length[OF len, of predict x y] by simp
  have s: "sum_list ?ws \<noteq> 0 \<longrightarrow> sum_list (weights ?h') = 1"
    by (simp add: sum_list_divide)
  have z: "sum_list ?ws = 0 \<longrightarrow> weights ?h' = ?ws" by simp
  from run one fo l s z show ?thesis by blast
qed

theorem hedge_weights_simplex_witness:
  "length (weights \<lparr>models = [4, 0::real], loss = (\<lambda>yt yp. (yp - yt)\<^sup>2), learning_rate = 1/2, weights = [1, 1]\<rparr>)
     = length (models \<lparr>models = [4, 0::real], loss = (\<lambda>yt yp. (yp - yt)\<^sup>2), learning_rate = 1/2, weights = [1, 1]\<rparr>)
   \<and> (\<exists>m t ws fs h'.
           fit_predict_pass (\<lambda>m (x::unit). m) (\<lambda>m x y. m)
             \<lparr>models = [4, 0], loss = (\<lambda>yt yp. (yp - yt)\<^sup>2), learning_rate = 1/2, weights = [1, 1]\<rparr> () 0
             = Inr (m, t, ws, fs)
         \<and> ws = reweighted (\<lambda>m (x::unit). m)
             \<lparr>models = [4, 0], loss = (\<lambda>yt yp. (yp - yt)\<^sup>2), learning_rate = 1/2, weights = [1, 1]\<rparr> () 0
         \<and> t = sum_list ws
         \<and> fit_predict_one (\<lambda>m (x::unit). m) (\<lambda>m x y. m)
             \<lparr>models = [4, 0], loss = (\<lambda>yt yp. (yp - yt)\<^sup>2), learning_rate = 1/2, weights = [1, 1]\<rparr> () 0
             = Inr (m, h')
         \<and> fit_one (\<lambda>m (x::unit). m) (\<lambda>m x y. m)
             \<lparr>models = [4, 0], loss = (\<lambda>yt yp. (yp - yt)\<^sup>2), learning_rate = 1/2, weights = [1, 1]\<rparr> () 0
             = Inr h'
         \<and> length (weights h') = length (models h')
         \<and> (t \<noteq> 0 \<longrightarrow> sum_list (weights h') = 1)
         \<and> (t = 0 \<longrightarrow> weights h' = ws))"
proof -
  let ?h = "\<lparr>models = [4, 0::real], loss = (\<lambda>yt yp. (yp - yt)\<^sup>2), learning_rate = 1/2, weights = [1, 1]\<rparr>"
  have l: "length (weights ?h) = length (models ?h)" by simp
  from l hedge_weights_simplex[OF l, of "\<lambda>m (x::unit). m" "\<lambda>m x y. m" "()" 0] show ?thesis by blast
qed

lemma reweighted_pos:
  assumes "positive_weights h"
  shows "list_all (\<lambda>w. 0 < w) (reweighted predict h x y)"
proof -
  have "\<And>w r. (w, r) \<in> set (zip (weights h) (models h)) \<Longrightarrow> 0 < w"
    using assms by (auto simp: positive_weights_def list_all_iff dest: set_zip_leftD)
  then show ?thesis
    by (auto simp: reweighted_def list_all_iff)
qed

lemma sum_list_pos_real:
  "list_all (\<lambda>w. 0 < w) ws \<Longrightarrow> ws \<noteq> [] \<Longrightarrow> 0 < sum_list (ws :: real list)"
proof (cases ws)
  case Nil
  then show "ws \<noteq> [] \<Longrightarrow> ?thesis" by simp
next
  case (Cons a as)
  assume "list_all (\<lambda>w. 0 < w) ws"
  then have a: "0 < a" and "\<forall>w\<in>set as. 0 \<le> w"
    using Cons by (auto simp: list_all_iff intro: less_imp_le)
  then have "0 \<le> sum_list as" by (simp add: sum_list_nonneg)
  with a show ?thesis using Cons by simp
qed

lemma ratio_grows:
  fixes p q u v :: real
  assumes "0 < p" "0 < q" "0 < v" "v < u"
  shows "p / q < (p * u) / (q * v)"
proof -
  have "p * q * v < p * q * u" using assms by simp
  then show ?thesis using assms by (simp add: field_simps)
qed

text \<open>
  Claim C9, amended to ensembles with at least one member. After construction (the base
  constructor storing the list it is given) every weight is strictly positive, one per
  member. From any such state with a non-empty member list, \<^verbatim>\<open>fit_predict_one\<close> returns,
  the post-update total \<open>t\<close> is strictly positive, so the weights are divided by it, and
  the new state again has strictly positive weights, one per member.
\<close>

theorem hedge_weights_positive:
  "(Ensemble_init regressors = Inr regressors \<longrightarrow>
      (\<exists>h0. HedgeRegressor_init Ensemble_init Squared regressors loss_arg lr = Inr h0
            \<and> positive_weights h0))
   \<and> (positive_weights h \<and> models h \<noteq> [] \<longrightarrow>
      (\<exists>m t ws fs h'.
           fit_predict_pass predict fit h x y = Inr (m, t, ws, fs) \<and> 0 < t
         \<and> fit_predict_one predict fit h x y = Inr (m, h')
         \<and> weights h' = map (\<lambda>w. w / t) ws
         \<and> positive_weights h' \<and> models h' \<noteq> []))"
proof (intro conjI impI)
  assume "Ensemble_init regressors = Inr regressors"
  then show "\<exists>h0. HedgeRegressor_init Ensemble_init Squared regressors loss_arg lr = Inr h0
            \<and> positive_weights h0"
    by (simp add: HedgeRegressor_init_def positive_weights_def list_all_iff)
next
  assume a: "positive_weights h \<and> models h \<noteq> []"
  then have len: "length (weights h) = length (models h)" by (simp add: positive_weights_def)
  let ?ws = "reweighted predict h x y"
  from pass_char[OF len, of predict fit x y] obtain m where
    run: "fit_predict_pass predict fit h x y =
            Inr (m, sum_list ?ws, ?ws, map (\<lambda>r. fit r x y) (models h))" by blast
  have pos: "list_all (\<lambda>w. 0 < w) ?ws" using a by (simp add: reweighted_pos)
  have ne: "?ws \<noteq> []" using a reweighted_length[OF len, of predict x y] by auto
  have t: "0 < sum_list ?ws" using pos ne by (rule sum_list_pos_real)
  let ?h' = "h\<lparr>models := map (\<lambda>r. fit r x y) (models h),
               weights := map (\<lambda>w. w / sum_list ?ws) ?ws\<rparr>"
  have one: "fit_predict_one predict fit h x y = Inr (m, ?h')"
    using t by (simp add: fit_predict_one_def run)
  have inv: "positive_weights ?h'"
    using pos t reweighted_length[OF len, of predict x y]
    by (simp add: positive_weights_def list_all_iff)
  have "models ?h' \<noteq> []" using a by simp
  with run t one inv
  show "\<exists>m t ws fs h'.
           fit_predict_pass predict fit h x y = Inr (m, t, ws, fs) \<and> 0 < t
         \<and> fit_predict_one predict fit h x y = Inr (m, h')
         \<and> weights h' = map (\<lambda>w. w / t) ws
         \<and> positive_weights h' \<and> models h' \<noteq> []"
    by (intro exI[of _ m] exI[of _ "sum_list ?ws"] exI[of _ ?ws] exI[of _ "map (\<lambda>r. fit r x y) (models h)"] exI[of _ ?h']) simp
qed

theorem hedge_weights_positive_witness:
  "(Inr [4, 0::real] :: error + real list) = Inr [4, 0]
   \<and> (\<exists>h0. HedgeRegressor_init Inr (\<lambda>yt yp. (yp - yt)\<^sup>2) [4, 0::real] None (1/2) = Inr h0
           \<and> positive_weights h0)
   \<and> positive_weights \<lparr>models = [4, 0::real], loss = (\<lambda>yt yp. (yp - yt)\<^sup>2), learning_rate = 1/2, weights = [1, 1]\<rparr>
   \<and> models \<lparr>models = [4, 0::real], loss = (\<lambda>yt yp. (yp - yt)\<^sup>2), learning_rate = 1/2, weights = [1, 1]\<rparr> \<noteq> []
   \<and> (\<exists>m t ws fs h'.
         fit_predict_pass (\<lambda>m (x::unit). m) (\<lambda>m x y. m)
           \<lparr>models = [4, 0], loss = (\<lambda>yt yp. (yp - yt)\<^sup>2), learning_rate = 1/2, weights = [1, 1]\<rparr> () 0
           = Inr (m, t, ws, fs) \<and> 0 < t
       \<and> fit_predict_one (\<lambda>m (x::unit). m) (\<lambda>m x y. m)
           \<lparr>models = [4, 0], loss = (\<lambda>yt yp. (yp - yt)\<^sup>2), learning_rate = 1/2, weights = [1, 1]\<rparr> () 0
           = Inr (m, h')
       \<and> weights h' = map (\<lambda>w. w / t) ws
       \<and> positive_weights h' \<and> models h' \<noteq> [])"
proof -
  let ?h = "\<lparr>models = [4, 0::real], loss = (\<lambda>yt yp. (yp - yt)\<^sup>2), learning_rate = 1/2, weights = [1, 1]\<rparr>"
  have p: "positive_weights ?h \<and> models ?h \<noteq> []" by (simp add: positive_weights_def)
  have e: "(Inr [4, 0::real] :: error + real list) = Inr [4, 0]" by simp
  from hedge_weights_positive[of Inr "[4, 0::real]" "\<lambda>yt yp. (yp - yt)\<^sup>2" None "1/2" ?h "\<lambda>m (x::unit). m" "\<lambda>m x y. m" "()" 0] p e
  show ?thesis by blast
qed

text \<open>
  Claim C9 as stated fails for the ensemble constructed from the empty member list: the
  loop body never runs, the total stays 0 and the renormalisation is skipped.
\<close>

theorem hedge_empty_total_zero:
  "HedgeRegressor_init Inr (\<lambda>yt yp. (yp - yt)\<^sup>2) ([] :: real list) None (1/2) =
     Inr \<lparr>models = [], loss = (\<lambda>yt yp. (yp - yt)\<^sup>2), learning_rate = 1/2, weights = []\<rparr>
   \<and> fit_predict_pass (\<lambda>m (x::unit). m) (\<lambda>m x y. m)
       \<lparr>models = [], loss = (\<lambda>yt yp. (yp - yt)\<^sup>2), learning_rate = 1/2, weights = []\<rparr> () 0
     = Inr (0, 0, [], [])"
  by (simp add: HedgeRegressor_init_def fit_predict_pass_def)

text \<open>
  Claim C10. With an empty member list, \<^verbatim>\<open>fit_predict_one\<close> returns 0 and
  \<^verbatim>\<open>predict_one\<close> returns 0; neither raises, and the state is left as it was.
\<close>

theorem hedge_empty_ensemble:
  assumes "models h = []"
  shows "fit_predict_one predict fit h x y = Inr (0, h)
       \<and> fit_one predict fit h x y = Inr h
       \<and> predict_one predict h x = 0"
proof -
  have "h\<lparr>models := [], weights := weights h\<rparr> = h" using assms by simp
  then show ?thesis
    using assms by (simp add: fit_predict_one_def fit_one_def fit_predict_pass_def predict_one_def)
qed

theorem hedge_empty_ensemble_witness:
  "models \<lparr>models = ([] :: real list), loss = (\<lambda>yt yp. (yp - yt)\<^sup>2), learning_rate = 1/2, weights = []\<rparr> = []
   \<and> fit_predict_one (\<lambda>m (x::unit). m) (\<lambda>m x y. m)
       \<lparr>models = [], loss = (\<lambda>yt yp. (yp - yt)\<^sup>2), learning_rate = 1/2, weights = []\<rparr> () 3
     = Inr (0, \<lparr>models = [], loss = (\<lambda>yt yp. (yp - yt)\<^sup>2), learning_rate = 1/2, weights = []\<rparr>)
   \<and> fit_one (\<lambda>m (x::unit). m) (\<lambda>m x y. m)
       \<lparr>models = [], loss = (\<lambda>yt yp. (yp - yt)\<^sup>2), learning_rate = 1/2, weights = []\<rparr> () 3
     = Inr \<lparr>models = [], loss = (\<lambda>yt yp. (yp - yt)\<^sup>2), learning_rate = 1/2, weights = []\<rparr>
   \<and> predict_one (\<lambda>m (x::unit). m)
       \<lparr>models = [], loss = (\<lambda>yt yp. (yp - yt)\<^sup>2), learning_rate = 1/2, weights = []\<rparr> () = 0"
proof -
  let ?h = "\<lparr>models = ([] :: real list), loss = (\<lambda>yt yp. (yp - yt)\<^sup>2), learning_rate = 1/2, weights = []\<rparr>"
  have m: "models ?h = []" by simp
  from m hedge_empty_ensemble[OF m, of "\<lambda>m (x::unit). m" "\<lambda>m x y. m" "()" 3] show ?thesis by simp
qed

text \<open>
  Claim C8. For two members \<open>a\<close> and \<open>b\<close> with strictly positive weights, a strictly
  positive learning rate and a smaller loss for \<open>a\<close> than for \<open>b\<close> on the sample, the
  ratio of their weights after the multiplicative update of \<^verbatim>\<open>fit_predict_one\<close>, before
  renormalisation, is strictly greater than the ratio before.
\<close>

theorem hedge_ratio_increases:
  assumes len: "length (weights h) = length (models h)"
    and a: "a < length (models h)" and b: "b < length (models h)"
    and wa: "0 < weights h ! a" and wb: "0 < weights h ! b"
    and lr: "0 < learning_rate h"
    and ls: "loss h y (predict (models h ! a) x) < loss h y (predict (models h ! b) x)"
  shows "\<exists>m t ws fs. fit_predict_pass predict fit h x y = Inr (m, t, ws, fs)
           \<and> ws ! a = weights h ! a * exp (- learning_rate h * loss h y (predict (models h ! a) x))
           \<and> ws ! b = weights h ! b * exp (- learning_rate h * loss h y (predict (models h ! b) x))
           \<and> weights h ! a / weights h ! b < ws ! a / ws ! b"
proof -
  let ?ws = "reweighted predict h x y"
  let ?la = "loss h y (predict (models h ! a) x)"
  let ?lb = "loss h y (predict (models h ! b) x)"
  from pass_char[OF len, of predict fit x y] obtain m where
    run: "fit_predict_pass predict fit h x y =
            Inr (m, sum_list ?ws, ?ws, map (\<lambda>r. fit r x y) (models h))" by blast
  have ea: "?ws ! a = weights h ! a * exp (- learning_rate h * ?la)"
    using reweighted_nth[OF len a] .
  have eb: "?ws ! b = weights h ! b * exp (- learning_rate h * ?lb)"
    using reweighted_nth[OF len b] .
  have "- learning_rate h * ?lb < - learning_rate h * ?la" using lr ls by simp
  then have e: "exp (- learning_rate h * ?lb) < exp (- learning_rate h * ?la)" by simp
  have "weights h ! a / weights h ! b < ?ws ! a / ?ws ! b"
    unfolding ea eb by (rule ratio_grows[OF wa wb _ e]) simp
  with run ea eb show ?thesis by blast
qed

theorem hedge_ratio_increases_witness:
  "length (weights \<lparr>models = [0, 1::real], loss = (\<lambda>yt yp. (yp - yt)\<^sup>2), learning_rate = 1/2, weights = [1, 1]\<rparr>)
     = length (models \<lparr>models = [0, 1::real], loss = (\<lambda>yt yp. (yp - yt)\<^sup>2), learning_rate = 1/2, weights = [1, 1]\<rparr>)
   \<and> (0::nat) < 2 \<and> (1::nat) < 2 \<and> (0::real) < 1 \<and> (0::real) < 1/2
   \<and> ((0::real) - 0)\<^sup>2 < ((1::real) - 0)\<^sup>2
   \<and> (\<exists>m t ws fs.
         fit_predict_pass (\<lambda>m (x::unit). m) (\<lambda>m x y. m)
           \<lparr>models = [0, 1], loss = (\<lambda>yt yp. (yp - yt)\<^sup>2), learning_rate = 1/2, weights = [1, 1]\<rparr> () 0
           = Inr (m, t, ws, fs)
       \<and> (1::real) / 1 < ws ! 0 / ws ! 1)"
proof -
  let ?h = "\<lparr>models = [0, 1::real], loss = (\<lambda>yt yp. (yp - yt)\<^sup>2), learning_rate = 1/2, weights = [1, 1]\<rparr>"
  have "\<exists>m t ws fs. fit_predict_pass (\<lambda>m (x::unit). m) (\<lambda>m x y. m) ?h () 0 = Inr (m, t, ws, fs)
           \<and> ws ! 0 = weights ?h ! 0 * exp (- learning_rate ?h * loss ?h 0 ((\<lambda>m (x::unit). m) (models ?h ! 0) ()))
           \<and> ws ! 1 = weights ?h ! 1 * exp (- learning_rate ?h * loss ?h 0 ((\<lambda>m (x::unit). m) (models ?h ! 1) ()))
           \<and> weights ?h ! 0 / weights ?h ! 1 < ws ! 0 / ws ! 1"
    by (rule hedge_ratio_increases) simp_all
  then show ?thesis by auto
qed

text \<open>
  Claim C2 at concrete inputs. Two members predict 4 and 0. With both weights 1 (a
  freshly constructed ensemble) the weighted average of the predictions is 2, and the
  single pass \<^verbatim>\<open>y_pred_mean += weights[i] * (y_pred - y_pred_mean) / len(self)\<close> returns 1;
  with the same two members visited in the other order it returns 2. With both weights
  1/2 (weights that sum to 1) \<^verbatim>\<open>predict_one\<close> returns the weighted average 2, and the pass
  returns 3/4.
\<close>

theorem hedge_incremental_mean_order:
  "(\<exists>h'. fit_predict_one (\<lambda>m (x::unit). m) (\<lambda>m x y. m)
       \<lparr>models = [4, 0], loss = (\<lambda>yt yp. (yp - yt)\<^sup>2), learning_rate = 1/2, weights = [1, 1]\<rparr> () 0
     = Inr (1, h'))
   \<and> (\<exists>h'. fit_predict_one (\<lambda>m (x::unit). m) (\<lambda>m x y. m)
       \<lparr>models = [0, 4], loss = (\<lambda>yt yp. (yp - yt)\<^sup>2), learning_rate = 1/2, weights = [1, 1]\<rparr> () 0
     = Inr (2, h'))
   \<and> (\<exists>h'. fit_predict_one (\<lambda>m (x::unit). m) (\<lambda>m x y. m)
       \<lparr>models = [4, 0], loss = (\<lambda>yt yp. (yp - yt)\<^sup>2), learning_rate = 1/2, weights = [1/2, 1/2]\<rparr> () 0
     = Inr (3/4, h'))
   \<and> predict_one (\<lambda>m (x::unit). m)
       \<lparr>models = [4, 0], loss = (\<lambda>yt yp. (yp - yt)\<^sup>2), learning_rate = 1/2, weights = [1/2, 1/2]\<rparr> ()
     = 2"
  by (simp add: fit_predict_one_def fit_predict_pass_def fit_predict_step_def getitem_def
      truediv_def predict_one_def Let_def)


section \<open>Properties of the factorisation machine\<close>

lemma map_result_Inr:
  assumes "\<And>a. a \<in> set as \<Longrightarrow> g a = Inr (h a)"
  shows "map_result g as = Inr (map h as)"
  using assms by (induction as) simp_all

lemma foldl_mult: "foldl (*) (a::real) as = a * prod_list as"
  by (induction as arbitrary: a) (simp_all add: mult.assoc)

lemma reduce_mul_Inr: "as \<noteq> [] \<Longrightarrow> reduce_mul as = Inr (prod_list as)"
  by (cases as) (simp_all add: foldl_mult)

lemma dict_get_key: "j \<in> set (keys x) \<Longrightarrow> dict_get x j = Inr (value_at x j)"
proof -
  assume "j \<in> set (keys x)"
  then obtain v where "map_of x j = Some v"
    unfolding keys_def by (metis map_of_eq_None_iff not_Some_eq set_map)
  then show ?thesis by (simp add: dict_get_def value_at_def)
qed

lemma combinations_length: "c \<in> set (combinations xs r) \<Longrightarrow> length c = r"
  by (induction xs r arbitrary: c rule: combinations.induct) auto

lemma combinations_subset: "c \<in> set (combinations xs r) \<Longrightarrow> set c \<subseteq> set xs"
  by (induction xs r arbitrary: c rule: combinations.induct) fastforce+

lemma combinations_distinct:
  "distinct xs \<Longrightarrow> c \<in> set (combinations xs r) \<Longrightarrow> distinct c"
proof (induction xs r arbitrary: c rule: combinations.induct)
  case (3 x xs r)
  from "3.prems"(2) consider c' where "c = x # c'" "c' \<in> set (combinations xs r)"
    | "c \<in> set (combinations xs (Suc r))" by auto
  then show ?case
  proof cases
    case 1
    then show ?thesis using "3.IH"(1)[of c'] "3.prems"(1) combinations_subset[of c' xs r] by auto
  next
    case 2
    then show ?thesis using "3.IH"(2) "3.prems"(1) by simp
  qed
qed simp_all

lemma combinations_short: "length xs < r \<Longrightarrow> combinations xs r = []"
  by (induction xs r rule: combinations.induct) simp_all

lemma feature_product_Inr:
  assumes "c \<noteq> []" "set c \<subseteq> set (keys x)"
  shows "feature_product x c = Inr (prod_list (map (value_at x) c))"
proof -
  have "map_result (dict_get x) c = Inr (map (value_at x) c)"
    by (rule map_result_Inr) (use assms in \<open>auto simp: dict_get_key\<close>)
  then show ?thesis using assms by (simp add: feature_product_def reduce_mul_Inr)
qed

lemma latent_product_Inr:
  "c \<noteq> [] \<Longrightarrow> latent_product m l f c = Inr (prod_list (map (\<lambda>j. latents m j l f) c))"
  by (simp add: latent_product_def reduce_mul_Inr)

lemma calculate_interaction_Inr:
  assumes "c \<noteq> []" "set c \<subseteq> set (keys x)"
  shows "calculate_interaction m x l c = Inr (interaction_term m x l c)"
proof -
  have "map_result (\<lambda>f. latent_product m l f c) (factors (n_factors m)) =
          Inr (map (\<lambda>f. prod_list (map (\<lambda>j. latents m j l f) c)) (factors (n_factors m)))"
    by (rule map_result_Inr) (simp add: latent_product_Inr assms)
  then show ?thesis
    by (simp add: calculate_interaction_def feature_product_Inr[OF assms] interaction_term_def)
qed

lemma sum_list_concat_pairs:
  "sum_list (map g (concat (map (\<lambda>l. map (Pair l) (cs l)) ls))) =
   (sum_list (map (\<lambda>l. sum_list (map (\<lambda>c. g (l, c)) (cs l))) ls) :: real)"
  by (induction ls) (simp_all add: comp_def)

lemma orders_ge2: "l \<in> set (orders d) \<Longrightarrow> 2 \<le> l"
  by (auto simp: orders_def)

lemma calculate_interactions_Inr:
  "calculate_interactions m x =
     Inr (sum_list (map (\<lambda>l. sum_list (map (interaction_term m x l) (combinations (keys x) l)))
                     (orders (degree m))))"
proof -
  let ?ps = "concat (map (\<lambda>l. map (Pair l) (combinations (keys x) l)) (orders (degree m)))"
  have "map_result (\<lambda>(l, c). calculate_interaction m x l c) ?ps =
          Inr (map (\<lambda>(l, c). interaction_term m x l c) ?ps)"
  proof (rule map_result_Inr)
    fix a assume "a \<in> set ?ps"
    then obtain l c where a: "a = (l, c)" and l: "l \<in> set (orders (degree m))"
      and c: "c \<in> set (combinations (keys x) l)" by auto
    have "length c = l" using c by (rule combinations_length)
    with orders_ge2[OF l] have "c \<noteq> []" by auto
    moreover have "set c \<subseteq> set (keys x)" using c by (rule combinations_subset)
    ultimately show "(case a of (l, c) \<Rightarrow> calculate_interaction m x l c) =
        Inr (case a of (l, c) \<Rightarrow> interaction_term m x l c)"
      by (simp add: a calculate_interaction_Inr)
  qed
  moreover have "sum_list (map (\<lambda>(l, c). interaction_term m x l c) ?ps) =
      sum_list (map (\<lambda>l. sum_list (map (interaction_term m x l) (combinations (keys x) l)))
                     (orders (degree m)))"
    by (simp add: sum_list_concat_pairs)
  ultimately show ?thesis by (simp add: calculate_interactions_def)
qed

lemma subsets_insert_card:
  assumes "finite X" "x \<notin> X"
  shows "{A. A \<subseteq> insert x X \<and> card A = Suc r} =
         insert x ` {B. B \<subseteq> X \<and> card B = r} \<union> {A. A \<subseteq> X \<and> card A = Suc r}"
    (is "?L = ?I \<union> ?R")
proof (intro equalityI subsetI)
  fix A assume "A \<in> ?L"
  then have A: "A \<subseteq> insert x X" "card A = Suc r" by auto
  show "A \<in> ?I \<union> ?R"
  proof (cases "x \<in> A")
    case True
    have fin: "finite A" using A(1) assms(1) by (meson finite_insert finite_subset)
    have "A - {x} \<subseteq> X" using A(1) by auto
    moreover have "card (A - {x}) = r" using True A(2) fin by simp
    moreover have "A = insert x (A - {x})" using True by auto
    ultimately show ?thesis by blast
  next
    case False
    then have "A \<subseteq> X" using A(1) by auto
    then show ?thesis using A(2) by simp
  qed
next
  fix A assume "A \<in> ?I \<union> ?R"
  then show "A \<in> ?L"
  proof
    assume "A \<in> ?I"
    then obtain B where B: "A = insert x B" "B \<subseteq> X" "card B = r" by auto
    have "finite B" using B(2) assms(1) by (rule finite_subset)
    moreover have "x \<notin> B" using B(2) assms(2) by auto
    ultimately have "card (insert x B) = Suc r" using B(3) by simp
    then show ?thesis using B by auto
  next
    assume "A \<in> ?R" then show ?thesis by auto
  qed
qed

lemma sum_combinations:
  fixes F :: "'a set \<Rightarrow> real"
  assumes "distinct xs"
  shows "sum_list (map (\<lambda>c. F (set c)) (combinations xs r)) =
         sum F {A. A \<subseteq> set xs \<and> card A = r}"
  using assms
proof (induction xs r arbitrary: F rule: combinations.induct)
  case (1 xs)
  have "{A. A \<subseteq> set xs \<and> card A = 0} = {{}}"
    by (auto dest: finite_subset[OF _ finite_set])
  then show ?case by simp
next
  case (2 r)
  have "{A::'a set. A \<subseteq> set [] \<and> card A = Suc r} = {}" by auto
  then have "sum F {A. A \<subseteq> set [] \<and> card A = Suc r} = 0" by (simp only: sum.empty)
  then show ?case by (simp only: combinations.simps list.map sum_list.Nil)
next
  case (3 x xs r)
  let ?X = "set xs"
  let ?B = "{B. B \<subseteq> ?X \<and> card B = r}"
  let ?R = "{A. A \<subseteq> ?X \<and> card A = Suc r}"
  have x: "x \<notin> ?X" and d: "distinct xs" using "3.prems" by simp_all
  have finB: "finite ?B" and finR: "finite ?R" by simp_all
  have inj: "inj_on (insert x) ?B"
  proof (rule inj_onI)
    fix B B' assume "B \<in> ?B" "B' \<in> ?B" "insert x B = insert x B'"
    then have "x \<notin> B" "x \<notin> B'" "insert x B = insert x B'" using x by auto
    then show "B = B'" by (metis insert_ident)
  qed
  have disj: "insert x ` ?B \<inter> ?R = {}" using x by auto
  have "sum_list (map (\<lambda>c. F (set c)) (combinations (x # xs) (Suc r))) =
        sum_list (map (\<lambda>c. (F \<circ> insert x) (set c)) (combinations xs r))
        + sum_list (map (\<lambda>c. F (set c)) (combinations xs (Suc r)))"
    by (simp add: comp_def)
  also have "\<dots> = sum (F \<circ> insert x) ?B + sum F ?R"
    using "3.IH"(1)[OF d, of "F \<circ> insert x"] "3.IH"(2)[OF d, of F] by simp
  also have "sum (F \<circ> insert x) ?B = sum F (insert x ` ?B)"
    using inj by (simp add: sum.reindex)
  also have "sum F (insert x ` ?B) + sum F ?R = sum F (insert x ` ?B \<union> ?R)"
    using finB finR disj by (simp add: sum.union_disjoint)
  also have "insert x ` ?B \<union> ?R = {A. A \<subseteq> set (x # xs) \<and> card A = Suc r}"
    using subsets_insert_card[of ?X x r] x by simp
  finally show ?case .
qed

lemma interaction_term_set:
  assumes "distinct c"
  shows "interaction_term m x l c =
         (\<Prod>j\<in>set c. value_at x j) * (\<Sum>f\<in>{0..<nat (n_factors m)}. \<Prod>j\<in>set c. latents m j l f)"
proof -
  have p: "prod_list (map g c) = prod g (set c)" for g :: "'a \<Rightarrow> real"
    using assms by (simp add: prod.distinct_set_conv_list)
  have "sum_list (map (\<lambda>f. prod (\<lambda>j. latents m j l f) (set c)) [0..<nat (n_factors m)]) =
        (\<Sum>f\<in>{0..<nat (n_factors m)}. \<Prod>j\<in>set c. latents m j l f)"
    by (simp add: sum_list_distinct_conv_sum_set)
  then show ?thesis by (simp add: interaction_term_def p factors_def)
qed

lemma order_sum_set:
  assumes "distinct (keys x)"
  shows "sum_list (map (interaction_term m x l) (combinations (keys x) l)) =
         (\<Sum>C | C \<subseteq> set (keys x) \<and> card C = l.
            (\<Prod>j\<in>C. value_at x j) * (\<Sum>f\<in>{0..<nat (n_factors m)}. \<Prod>j\<in>C. latents m j l f))"
proof -
  let ?F = "\<lambda>C. (\<Prod>j\<in>C. value_at x j) * (\<Sum>f\<in>{0..<nat (n_factors m)}. \<Prod>j\<in>C. latents m j l f)"
  have "map (interaction_term m x l) (combinations (keys x) l) =
        map (\<lambda>c. ?F (set c)) (combinations (keys x) l)"
    by (rule map_cong[OF refl]) (simp add: interaction_term_set combinations_distinct[OF assms])
  then have "sum_list (map (interaction_term m x l) (combinations (keys x) l)) =
        sum_list (map (\<lambda>c. ?F (set c)) (combinations (keys x) l))"
    by (rule arg_cong)
  also have "\<dots> = sum ?F {A. A \<subseteq> set (keys x) \<and> card A = l}"
    by (rule sum_combinations[OF assms])
  finally show ?thesis .
qed

lemma sum_list_orders:
  "sum_list (map g (orders d)) = (\<Sum>l\<in>{2..d}. g (nat l) :: real)"
proof -
  have "sum_list (map g (orders d)) = sum_list (map (\<lambda>l. g (nat l)) [2..d])"
    by (simp add: orders_def comp_def)
  also have "\<dots> = (\<Sum>l\<in>set [2..d]. g (nat l))"
    by (simp add: sum_list_distinct_conv_sum_set)
  finally show ?thesis by simp
qed

text \<open>
  Claim C5. For an instance with distinct keys, \<^verbatim>\<open>_calculate_interactions\<close> returns
  without error the sum, over each order \<open>l\<close> from 2 to the degree and each set of \<open>l\<close>
  distinct keys, of the product of the feature values times the sum over the factors of
  the product of the latent components. An order above the number of keys has no
  combination, and with fewer than 2 keys the sum is 0.
\<close>

theorem calculate_interactions_spec:
  assumes "distinct (keys x)"
  shows "calculate_interactions m x = Inr (interactions_spec m x)
       \<and> (\<forall>l. length x < l \<longrightarrow> combinations (keys x) l = [])
       \<and> (length x < 2 \<longrightarrow> calculate_interactions m x = Inr 0)"
proof (intro conjI allI impI)
  show eq: "calculate_interactions m x = Inr (interactions_spec m x)"
    by (simp add: calculate_interactions_Inr sum_list_orders order_sum_set[OF assms]
        interactions_spec_def)
  show "combinations (keys x) l = []" if "length x < l" for l
    using that by (simp add: combinations_short keys_def)
  show "calculate_interactions m x = Inr 0" if "length x < 2"
  proof -
    have "combinations (keys x) l = []" if "l \<in> set (orders (degree m))" for l
      using orders_ge2[OF that] \<open>length x < 2\<close> by (simp add: combinations_short keys_def)
    then have "map (\<lambda>l. sum_list (map (interaction_term m x l) (combinations (keys x) l)))
                 (orders (degree m)) = map (\<lambda>l. 0) (orders (degree m))"
      by (intro map_cong[OF refl]) simp
    then have "sum_list (map (\<lambda>l. sum_list (map (interaction_term m x l) (combinations (keys x) l)))
                 (orders (degree m))) = sum_list (map (\<lambda>l. 0) (orders (degree m)))"
      by (rule arg_cong)
    also have "\<dots> = 0" by simp
    finally show ?thesis by (simp add: calculate_interactions_Inr)
  qed
qed

theorem calculate_interactions_spec_witness:
  "distinct (keys [(0::nat, 2::real), (1, 3)])
   \<and> calculate_interactions
        \<lparr>n_factors = 1, latents = (\<lambda>j l f. 1), l1_latent = 0, l2_latent = 0,
         latent_optimizer = (), degree = 2\<rparr> [(0::nat, 2::real), (1, 3)]
     = Inr (interactions_spec
        \<lparr>n_factors = 1, latents = (\<lambda>j l f. 1), l1_latent = 0, l2_latent = 0,
         latent_optimizer = (), degree = 2\<rparr> [(0::nat, 2::real), (1, 3)])
   \<and> calculate_interactions
        \<lparr>n_factors = 1, latents = (\<lambda>j l f. 1), l1_latent = 0, l2_latent = 0,
         latent_optimizer = (), degree = 2\<rparr> [(0::nat, 2::real), (1, 3)]
     = Inr 6"
proof -
  have d: "distinct (keys [(0::nat, 2::real), (1, 3)])" by (simp add: keys_def)
  have e: "calculate_interactions
        \<lparr>n_factors = 1, latents = (\<lambda>j l f. 1), l1_latent = 0, l2_latent = 0,
         latent_optimizer = (), degree = 2\<rparr> [(0::nat, 2::real), (1, 3)] = Inr 6"
    by (simp add: calculate_interactions_def calculate_interaction_def feature_product_def
        latent_product_def orders_def factors_def keys_def dict_get_def upto.simps
        numeral_2_eq_2)
  from d e calculate_interactions_spec[OF d,
      of "\<lparr>n_factors = 1, latents = (\<lambda>j l f. 1), l1_latent = 0, l2_latent = 0,
         latent_optimizer = (), degree = 2\<rparr>"]
  show ?thesis by simp
qed


subsection \<open>Degree 2\<close>

lemma sum_list_swap:
  "sum_list (map (\<lambda>c. sum_list (map (\<lambda>f. g f c) fs)) cs) =
   (sum_list (map (\<lambda>f. sum_list (map (\<lambda>c. g f c) cs)) fs) :: real)"
proof (induction cs)
  case Nil
  then show ?case by simp
next
  case (Cons c cs)
  have "sum_list (map (\<lambda>f. g f c + sum_list (map (g f) cs)) fs) =
        sum_list (map (\<lambda>f. g f c) fs) + sum_list (map (\<lambda>f. sum_list (map (g f) cs)) fs)"
    by (simp add: sum_list_addf)
  with Cons show ?case by simp
qed

lemma combinations_one: "combinations ks (Suc 0) = map (\<lambda>k. [k]) ks"
  by (induction ks) simp_all

lemma pairs_sum:
  fixes a :: "'k \<Rightarrow> real"
  shows "sum_list (map (\<lambda>c. prod_list (map a c)) (combinations ks 2)) =
         ((sum_list (map a ks))\<^sup>2 - sum_list (map (\<lambda>k. (a k)\<^sup>2) ks)) / 2"
proof (induction ks)
  case Nil
  then show ?case by (simp add: numeral_2_eq_2)
next
  case (Cons k ks)
  define S where "S = sum_list (map a ks)"
  define Q where "Q = sum_list (map (\<lambda>k. (a k)\<^sup>2) ks)"
  define P where "P = sum_list (map (\<lambda>c. prod_list (map a c)) (combinations ks 2))"
  have ih: "P = (S\<^sup>2 - Q) / 2" using Cons by (simp add: P_def S_def Q_def)
  have "sum_list (map (\<lambda>c. prod_list (map a c)) (combinations (k # ks) 2)) =
        sum_list (map (\<lambda>j. a k * a j) ks) + P"
    by (simp add: numeral_2_eq_2 combinations_one comp_def P_def)
  also have "sum_list (map (\<lambda>j. a k * a j) ks) = a k * S"
    by (simp add: sum_list_const_mult S_def)
  also have "a k * S + P = ((a k + S)\<^sup>2 - ((a k)\<^sup>2 + Q)) / 2"
    unfolding ih by (simp add: power2_eq_square field_simps)
  finally show ?case by (simp add: S_def Q_def)
qed

lemma prod_list_pointwise:
  "prod_list (map (\<lambda>j. g j * h j) c) = prod_list (map g c) * (prod_list (map h c) :: real)"
  by (induction c) (simp_all add: mult_ac)

lemma orders_two: "orders 2 = [2]"
  by (simp add: orders_def upto.simps)

lemma interaction_term_factorwise:
  "interaction_term m x l =
   (\<lambda>c. sum_list (map (\<lambda>f. prod_list (map (\<lambda>j. latents m j l f * value_at x j) c))
               (factors (n_factors m))))"
  by (rule ext) (simp add: interaction_term_def prod_list_pointwise sum_list_const_mult mult.commute)

text \<open>
  Claim C7. With \<open>degree = 2\<close>, the interaction term computed by enumerating the pairs
  of keys equals the closed form of the pairwise factorisation machine: the sum over the
  factors \<open>f\<close> of \<open>((\<Sum>j. latent[j][2][f] * x[j])\<^sup>2 - (\<Sum>j. latent[j][2][f]\<^sup>2 * x[j]\<^sup>2)) / 2\<close>, the
  inner sums running over the keys of the instance.
\<close>

theorem hofm_degree_two_closed_form:
  "calculate_interactions (m\<lparr>degree := 2\<rparr>) x =
     Inr (sum_list (map (\<lambda>f.
            ((sum_list (map (\<lambda>j. latents m j 2 f * value_at x j) (keys x)))\<^sup>2
             - sum_list (map (\<lambda>j. (latents m j 2 f)\<^sup>2 * (value_at x j)\<^sup>2) (keys x))) / 2)
          (factors (n_factors m))))"
proof -
  let ?m = "m\<lparr>degree := 2\<rparr>"
  let ?a = "\<lambda>f j. latents m j 2 f * value_at x j"
  have "calculate_interactions ?m x =
          Inr (sum_list (map (interaction_term ?m x 2) (combinations (keys x) 2)))"
    by (simp add: calculate_interactions_Inr orders_two)
  also have "sum_list (map (interaction_term ?m x 2) (combinations (keys x) 2)) =
      sum_list (map (\<lambda>c. sum_list (map (\<lambda>f. prod_list (map (?a f) c)) (factors (n_factors m))))
                 (combinations (keys x) 2))"
    by (simp add: interaction_term_factorwise)
  also have "\<dots> = sum_list (map (\<lambda>f. sum_list (map (\<lambda>c. prod_list (map (?a f) c))
                 (combinations (keys x) 2))) (factors (n_factors m)))"
    by (rule sum_list_swap[of "\<lambda>f c. prod_list (map (?a f) c)"])
  also have "\<dots> = sum_list (map (\<lambda>f.
            ((sum_list (map (?a f) (keys x)))\<^sup>2
             - sum_list (map (\<lambda>j. (?a f j)\<^sup>2) (keys x))) / 2) (factors (n_factors m)))"
    by (simp only: pairs_sum)
  finally show ?thesis by (simp add: power_mult_distrib)
qed


subsection \<open>Gradient accumulation\<close>

lemma fold_result_add:
  fixes G :: "'k \<Rightarrow> nat \<Rightarrow> nat \<Rightarrow> real"
  assumes "\<And>a G. a \<in> set as \<Longrightarrow> step a G = Inr (\<lambda>j l f. G j l f + D a j l f)"
  shows "fold_result step as G = Inr (\<lambda>j l f. G j l f + sum_list (map (\<lambda>a. D a j l f) as))"
  using assms
proof (induction as arbitrary: G)
  case Nil
  then show ?case by simp
next
  case (Cons a as)
  have "step a G = Inr (\<lambda>j l f. G j l f + D a j l f)" using Cons.prems by simp
  moreover have "fold_result step as (\<lambda>j l f. G j l f + D a j l f) =
      Inr (\<lambda>j l f. (G j l f + D a j l f) + sum_list (map (\<lambda>a. D a j l f) as))"
    using Cons.IH[of "\<lambda>j l f. G j l f + D a j l f"] Cons.prems by simp
  ultimately show ?case by (simp add: add.assoc)
qed

lemma grad_add_pointwise:
  "grad_add G j l f d = (\<lambda>j' l' f'. G j' l' f' + (if l' = l \<and> f' = f \<and> j' = j then d else 0))"
  by (auto simp: grad_add_def fun_eq_iff)

lemma sum_list_delta:
  "distinct as \<Longrightarrow>
   sum_list (map (\<lambda>a. if P \<and> Q \<and> b = a then g a else 0) as) =
   (if P \<and> Q \<and> b \<in> set as then g b else (0::real))"
  by (induction as) auto

lemma gradients_keys_Inr:
  assumes "distinct c" "\<And>j. j \<in> set c \<Longrightarrow> latents m j l f \<noteq> 0"
  shows "gradients_keys m l f fp lp c G =
     Inr (\<lambda>j' l' f'. G j' l' f' +
            (if l' = l \<and> f' = f \<and> j' \<in> set c then fp * lp / latents m j' l f else 0))"
proof -
  have "gradients_keys m l f fp lp c G =
        Inr (\<lambda>j' l' f'. G j' l' f' +
          sum_list (map (\<lambda>j. if l' = l \<and> f' = f \<and> j' = j then fp * lp / latents m j l f else 0) c))"
    unfolding gradients_keys_def
    by (rule fold_result_add) (simp add: truediv_def assms(2) grad_add_pointwise)
  then show ?thesis by (simp add: sum_list_delta[OF assms(1)])
qed

lemma latents_nonzeroD:
  "latents_nonzero m x \<Longrightarrow> j \<in> set (keys x) \<Longrightarrow> l \<in> set (orders (degree m)) \<Longrightarrow>
   f \<in> set (factors (n_factors m)) \<Longrightarrow> latents m j l f \<noteq> 0"
  by (auto simp: latents_nonzero_def list_all_iff)

lemma sum_list_delta_set:
  "distinct as \<Longrightarrow>
   sum_list (map (\<lambda>a. if P \<and> b = a \<and> Q then g a else 0) as) =
   (if P \<and> b \<in> set as \<and> Q then g b else (0::real))"
  by (induction as) auto

lemma gradients_factors_Inr:
  assumes c: "distinct c" "c \<noteq> []"
    and nz: "\<And>j f. j \<in> set c \<Longrightarrow> f \<in> set (factors (n_factors m)) \<Longrightarrow> latents m j l f \<noteq> 0"
  shows "gradients_factors m l fp c G =
     Inr (\<lambda>j' l' f'. G j' l' f' +
            (if l' = l \<and> f' \<in> set (factors (n_factors m)) \<and> j' \<in> set c
             then fp * prod_list (map (\<lambda>k. latents m k l f') c) / latents m j' l f' else 0))"
proof -
  have "gradients_factors m l fp c G =
        Inr (\<lambda>j' l' f'. G j' l' f' +
          sum_list (map (\<lambda>f. if l' = l \<and> f' = f \<and> j' \<in> set c
                        then fp * prod_list (map (\<lambda>k. latents m k l f) c) / latents m j' l f else 0)
                      (factors (n_factors m))))"
    unfolding gradients_factors_def
    by (rule fold_result_add)
       (simp add: latent_product_Inr[OF c(2)] gradients_keys_Inr[OF c(1)] nz)
  moreover have "distinct (factors (n_factors m))" by (simp add: factors_def)
  ultimately show ?thesis by (simp add: sum_list_delta_set)
qed

lemma gradients_combinations_Inr:
  assumes d: "distinct (keys x)" and l: "0 < l"
    and nz: "\<And>j f. j \<in> set (keys x) \<Longrightarrow> f \<in> set (factors (n_factors m)) \<Longrightarrow> latents m j l f \<noteq> 0"
  shows "gradients_combinations m x l G =
     Inr (\<lambda>j' l' f'. G j' l' f' +
            sum_list (map (\<lambda>c. if l' = l \<and> f' \<in> set (factors (n_factors m)) \<and> j' \<in> set c
                           then contribution m x l f' c j' else 0)
                       (combinations (keys x) l)))"
  unfolding gradients_combinations_def
proof (rule fold_result_add)
  fix c G assume cin: "c \<in> set (combinations (keys x) l)"
  have dc: "distinct c" using d cin by (rule combinations_distinct)
  have sub: "set c \<subseteq> set (keys x)" using cin by (rule combinations_subset)
  have "length c = l" using cin by (rule combinations_length)
  then have ne: "c \<noteq> []" using l by auto
  have nzc: "\<And>j f. j \<in> set c \<Longrightarrow> f \<in> set (factors (n_factors m)) \<Longrightarrow> latents m j l f \<noteq> 0"
    using nz sub by auto
  show "(case feature_product x c of Inl e \<Rightarrow> Inl e
         | Inr fp \<Rightarrow> gradients_factors m l fp c G) =
        Inr (\<lambda>j' l' f'. G j' l' f' +
              (if l' = l \<and> f' \<in> set (factors (n_factors m)) \<and> j' \<in> set c
               then contribution m x l f' c j' else 0))"
    unfolding contribution_def
    by (simp add: feature_product_Inr[OF ne sub] gradients_factors_Inr[OF dc ne nzc])
qed

lemma sum_list_if_const:
  "sum_list (map (\<lambda>a. if P \<and> Q \<and> R a then g a else 0) as) =
   (if P \<and> Q then sum_list (map (\<lambda>a. if R a then g a else 0) as) else (0::real))"
  by (induction as) auto

lemma sum_list_delta_first:
  "distinct as \<Longrightarrow>
   sum_list (map (\<lambda>a. if b = a \<and> Q then g a else 0) as) =
   (if b \<in> set as \<and> Q then g b else (0::real))"
  by (induction as) auto

lemma update_latents_gradients_Inr:
  assumes d: "distinct (keys x)" and nz: "latents_nonzero m x"
  shows "update_latents_gradients m x = Inr (gradients_spec m x)"
proof -
  let ?inner = "\<lambda>l j' f'. sum_list (map (\<lambda>c. if j' \<in> set c then contribution m x l f' c j' else 0)
                       (combinations (keys x) l))"
  have "update_latents_gradients m x =
        Inr (\<lambda>j' l' f'. 0 +
          sum_list (map (\<lambda>l. if l' = l \<and> f' \<in> set (factors (n_factors m)) then ?inner l j' f' else 0)
                     (orders (degree m))))"
    unfolding update_latents_gradients_def
  proof (rule fold_result_add)
    fix l G assume lin: "l \<in> set (orders (degree m))"
    have l: "0 < l" using orders_ge2[OF lin] by simp
    have nzl: "\<And>j f. j \<in> set (keys x) \<Longrightarrow> f \<in> set (factors (n_factors m)) \<Longrightarrow>
                 latents m j l f \<noteq> 0"
      using latents_nonzeroD[OF nz _ lin] by blast
    show "gradients_combinations m x l G =
          Inr (\<lambda>j' l' f'. G j' l' f' +
            (if l' = l \<and> f' \<in> set (factors (n_factors m)) then ?inner l j' f' else 0))"
      by (simp add: gradients_combinations_Inr[OF d l nzl] sum_list_if_const)
  qed
  moreover have "distinct (orders (degree m))"
    by (auto simp: orders_def distinct_map inj_on_def eq_nat_nat_iff)
  ultimately show ?thesis
    by (simp add: sum_list_delta_first gradients_spec_def fun_eq_iff)
qed

lemma prod_list_remove1:
  fixes g :: "'k \<Rightarrow> real"
  shows "j \<in> set c \<Longrightarrow> prod_list (map g c) = g j * prod_list (map g (remove1 j c))"
  by (induction c) (auto simp: mult_ac)

lemma contribution_others:
  assumes "j \<in> set c" "latents m j l f \<noteq> 0"
  shows "contribution m x l f c j =
         prod_list (map (value_at x) c) * prod_list (map (\<lambda>k. latents m k l f) (remove1 j c))"
  using assms prod_list_remove1[of j c "\<lambda>k. latents m k l f"]
  by (simp add: contribution_def)

text \<open>
  Claim C1, amended. For an instance with distinct keys none of whose latent components
  (at the orders from 2 to the degree and the factors below \<^verbatim>\<open>n_factors\<close>) is zero, the
  gradient accumulation of \<^verbatim>\<open>_update_latents\<close> completes without error, and so does
  \<^verbatim>\<open>_update_latents\<close>; each combination that contains \<open>j\<close> adds
  \<^verbatim>\<open>feature_product * latent_product / v[j][l][f]\<close> to \<^verbatim>\<open>gradients[j][l][f]\<close>, which is the
  feature product times the product of the latent components of the other keys.
\<close>

theorem update_latents_gradients_nonzero:
  assumes d: "distinct (keys x)" and nz: "latents_nonzero m x"
  shows "update_latents_gradients m x = Inr (gradients_spec m x)
       \<and> (\<exists>m'. update_latents upd sign m x g_loss = Inr m')
       \<and> (\<forall>l f c j. l \<in> set (orders (degree m)) \<and> f \<in> set (factors (n_factors m))
             \<and> c \<in> set (combinations (keys x) l) \<and> j \<in> set c \<longrightarrow>
           contribution m x l f c j =
             prod_list (map (value_at x) c)
               * prod_list (map (\<lambda>k. latents m k l f) (remove1 j c)))"
proof (intro conjI allI impI)
  show g: "update_latents_gradients m x = Inr (gradients_spec m x)"
    using d nz by (rule update_latents_gradients_Inr)
  show "\<exists>m'. update_latents upd sign m x g_loss = Inr m'"
    by (simp add: update_latents_def g split: prod.splits)
next
  fix l f c j
  assume a: "l \<in> set (orders (degree m)) \<and> f \<in> set (factors (n_factors m))
             \<and> c \<in> set (combinations (keys x) l) \<and> j \<in> set c"
  then have "j \<in> set (keys x)" using combinations_subset[of c "keys x" l] by auto
  then have "latents m j l f \<noteq> 0" using latents_nonzeroD[OF nz] a by blast
  then show "contribution m x l f c j =
             prod_list (map (value_at x) c)
               * prod_list (map (\<lambda>k. latents m k l f) (remove1 j c))"
    using a by (simp add: contribution_others)
qed

theorem update_latents_gradients_nonzero_witness:
  "distinct (keys [(0::nat, 2::real), (1, 3)])
   \<and> latents_nonzero \<lparr>n_factors = 1, latents = (\<lambda>j l f. 5), l1_latent = 0, l2_latent = 0,
         latent_optimizer = (), degree = 2\<rparr> [(0::nat, 2::real), (1, 3)]
   \<and> update_latents_gradients \<lparr>n_factors = 1, latents = (\<lambda>j l f. 5), l1_latent = 0, l2_latent = 0,
         latent_optimizer = (), degree = 2\<rparr> [(0::nat, 2::real), (1, 3)]
     = Inr (gradients_spec \<lparr>n_factors = 1, latents = (\<lambda>j l f. 5), l1_latent = 0, l2_latent = 0,
         latent_optimizer = (), degree = 2\<rparr> [(0::nat, 2::real), (1, 3)])
   \<and> gradients_spec \<lparr>n_factors = 1, latents = (\<lambda>j l f. 5), l1_latent = 0, l2_latent = 0,
         latent_optimizer = (), degree = 2\<rparr> [(0::nat, 2::real), (1, 3)] 0 2 0 = 30"
proof -
  let ?m = "\<lparr>n_factors = 1, latents = (\<lambda>j l f. 5::real), l1_latent = 0, l2_latent = 0,
         latent_optimizer = (), degree = 2\<rparr>"
  let ?x = "[(0::nat, 2::real), (1, 3)]"
  have d: "distinct (keys ?x)" by (simp add: keys_def)
  have o: "orders 2 = [2]" by (simp add: orders_def upto.simps)
  have nz: "latents_nonzero ?m ?x" by (simp add: latents_nonzero_def keys_def o factors_def)
  have v: "gradients_spec ?m ?x 0 2 0 = 30"
    by (simp add: gradients_spec_def contribution_def o factors_def keys_def value_at_def
        numeral_2_eq_2)
  from d nz v update_latents_gradients_nonzero[OF d nz, of "\<lambda>opt w g. (opt, w)" sgn 1]
  show ?thesis by blast
qed

text \<open>
  Claim C1 as stated fails: nothing special-cases a zero latent component. With two keys,
  one factor, degree 2 and the latent component of the first key equal to 0, the latent
  product is 0 and the division \<^verbatim>\<open>feature_product * latent_product / v[j][l][f]\<close> by that
  component raises \<^verbatim>\<open>ZeroDivisionError\<close>.
\<close>

theorem update_latents_zero_latent_raises:
  "update_latents_gradients
      \<lparr>n_factors = 1, latents = (\<lambda>j l f. if j = (0::nat) then 0 else 1), l1_latent = 0,
       l2_latent = 0, latent_optimizer = (), degree = 2\<rparr> [(0, 1), (1, 1)]
     = Inl ZeroDivisionError
   \<and> update_latents (\<lambda>opt w g. (opt, w)) sgn
      \<lparr>n_factors = 1, latents = (\<lambda>j l f. if j = (0::nat) then 0 else 1), l1_latent = 0,
       l2_latent = 0, latent_optimizer = (), degree = 2\<rparr> [(0, 1), (1, 1)] 1
     = Inl ZeroDivisionError"
proof -
  have o: "orders 2 = [2]" by (simp add: orders_def upto.simps)
  have "update_latents_gradients
      \<lparr>n_factors = 1, latents = (\<lambda>j l f. if j = (0::nat) then 0 else 1), l1_latent = 0,
       l2_latent = 0, latent_optimizer = (), degree = 2\<rparr> [(0, 1), (1, 1)]
     = Inl ZeroDivisionError"
    by (simp add: update_latents_gradients_def gradients_combinations_def gradients_factors_def
        gradients_keys_def feature_product_def latent_product_def dict_get_def truediv_def
        o factors_def keys_def numeral_2_eq_2)
  then show ?thesis by (simp add: update_latents_def)
qed


subsection \<open>Order of accumulation and update\<close>

lemma latent_step_other_key:
  "j' \<noteq> j \<Longrightarrow> fst (latent_step upd sign n l1 l2 g_loss G j l st) j' = fst st j'"
  by (cases st) (simp add: latent_step_def split: prod.splits)

lemma latent_step_other_order:
  "l' \<noteq> l \<Longrightarrow> fst (latent_step upd sign n l1 l2 g_loss G j l st) j l' = fst st j l'"
  by (cases st) (simp add: latent_step_def split: prod.splits)

lemma fold_orders_other_key:
  "j' \<noteq> j \<Longrightarrow>
   fst (fold (latent_step upd sign n l1 l2 g_loss G j) ls st) j' = fst st j'"
  by (induction ls arbitrary: st) (simp_all add: latent_step_other_key)

lemma latent_step_recording_calls:
  "snd (snd (latent_step (recording upd) sign n l1 l2 g_loss G j l st)) =
   snd (snd st) @
     [(fst st j l,
       map (\<lambda>f. (f, g_loss * G j l f + l1 * sign (fst st j l f) + 2 * l2 * fst st j l f))
         (factors n))]"
  by (cases st) (auto simp: latent_step_def recording_def split: prod.splits)

lemma fold_orders_calls:
  assumes "distinct ls" "\<And>l. l \<in> set ls \<Longrightarrow> fst st j l = v0 j l"
  shows "snd (snd (fold (latent_step (recording upd) sign n l1 l2 g_loss G j) ls st)) =
         snd (snd st) @
           map (\<lambda>l. (v0 j l,
                  map (\<lambda>f. (f, g_loss * G j l f + l1 * sign (v0 j l f) + 2 * l2 * v0 j l f))
                    (factors n))) ls"
  using assms
proof (induction ls arbitrary: st)
  case Nil
  then show ?case by simp
next
  case (Cons l ls)
  let ?st1 = "latent_step (recording upd) sign n l1 l2 g_loss G j l st"
  have here: "fst st j l = v0 j l" using Cons.prems(2) by simp
  have rest: "\<And>l'. l' \<in> set ls \<Longrightarrow> fst ?st1 j l' = v0 j l'"
  proof -
    fix l' assume l': "l' \<in> set ls"
    then have "l' \<noteq> l" using Cons.prems(1) by auto
    then have "fst ?st1 j l' = fst st j l'" by (rule latent_step_other_order)
    then show "fst ?st1 j l' = v0 j l'" using Cons.prems(2) l' by simp
  qed
  have d: "distinct ls" using Cons.prems(1) by simp
  show ?case
    using Cons.IH[OF d rest] by (simp add: latent_step_recording_calls here)
qed

lemma fold_keys_calls:
  assumes "distinct js" "distinct ls" "\<And>j. j \<in> set js \<Longrightarrow> fst st j = v0 j"
  shows "snd (snd (fold (\<lambda>j. fold (latent_step (recording upd) sign n l1 l2 g_loss G j) ls) js st)) =
         snd (snd st) @
           concat (map (\<lambda>j. map (\<lambda>l. (v0 j l,
                  map (\<lambda>f. (f, g_loss * G j l f + l1 * sign (v0 j l f) + 2 * l2 * v0 j l f))
                    (factors n))) ls) js)"
  using assms
proof (induction js arbitrary: st)
  case Nil
  then show ?case by simp
next
  case (Cons j js)
  let ?st1 = "fold (latent_step (recording upd) sign n l1 l2 g_loss G j) ls st"
  have calls1: "snd (snd ?st1) = snd (snd st) @
           map (\<lambda>l. (v0 j l,
                  map (\<lambda>f. (f, g_loss * G j l f + l1 * sign (v0 j l f) + 2 * l2 * v0 j l f))
                    (factors n))) ls"
    by (rule fold_orders_calls[OF Cons.prems(2)]) (simp add: Cons.prems(3))
  have rest: "\<And>j'. j' \<in> set js \<Longrightarrow> fst ?st1 j' = v0 j'"
  proof -
    fix j' assume j': "j' \<in> set js"
    then have "j' \<noteq> j" using Cons.prems(1) by auto
    then have "fst ?st1 j' = fst st j'" by (rule fold_orders_other_key)
    then show "fst ?st1 j' = v0 j'" using Cons.prems(3) j' by simp
  qed
  have d: "distinct js" using Cons.prems(1) by simp
  show ?case
    using Cons.IH[OF d Cons.prems(2) rest] by (simp add: calls1)
qed

lemma distinct_orders: "distinct (orders d)"
  by (auto simp: orders_def distinct_map inj_on_def eq_nat_nat_iff)

text \<open>
  Claim C6. For an instance with distinct keys on which the gradient accumulation
  completes with the table \<open>G\<close>, \<^verbatim>\<open>_update_latents\<close> returns, and the calls of the latent
  optimiser are, in order, one per key and order, each with the latent vector and the
  gradient dict computed from the latent table as it stood at the start of the call and
  from \<open>G\<close>, itself accumulated from that table: no replacement of a latent vector is
  visible in any value handed to the optimiser.
\<close>

theorem update_latents_uses_snapshot:
  assumes d: "distinct (keys x)" and g: "update_latents_gradients m x = Inr G"
  shows "\<exists>m'. update_latents (recording upd) sign m x g_loss = Inr m'
           \<and> snd (latent_optimizer m') =
               snd (latent_optimizer m) @
                 concat (map (\<lambda>j. map (\<lambda>l. (latents m j l, penalized_gradient sign m G g_loss j l))
                                  (orders (degree m))) (keys x))"
proof -
  let ?st = "fold (\<lambda>j. fold (latent_step (recording upd) sign (n_factors m) (l1_latent m)
                 (l2_latent m) g_loss G j) (orders (degree m))) (keys x)
               (latents m, latent_optimizer m)"
  have run: "update_latents (recording upd) sign m x g_loss =
             Inr (m\<lparr>latents := fst ?st, latent_optimizer := snd ?st\<rparr>)"
    by (simp add: update_latents_def g split: prod.splits)
  have "snd (snd ?st) = snd (snd (latents m, latent_optimizer m)) @
          concat (map (\<lambda>j. map (\<lambda>l. (latents m j l,
                  map (\<lambda>f. (f, g_loss * G j l f + l1_latent m * sign (latents m j l f)
                                + 2 * l2_latent m * latents m j l f))
                    (factors (n_factors m)))) (orders (degree m))) (keys x))"
    by (rule fold_keys_calls[OF d distinct_orders]) simp
  then have "snd (latent_optimizer (m\<lparr>latents := fst ?st, latent_optimizer := snd ?st\<rparr>)) =
               snd (latent_optimizer m) @
                 concat (map (\<lambda>j. map (\<lambda>l. (latents m j l, penalized_gradient sign m G g_loss j l))
                                  (orders (degree m))) (keys x))"
    by (simp add: penalized_gradient_def)
  with run show ?thesis by blast
qed

theorem update_latents_uses_snapshot_witness:
  "distinct (keys [(0::nat, 2::real), (1, 3)])
   \<and> update_latents_gradients
        \<lparr>n_factors = 1, latents = (\<lambda>j l f. 5::real), l1_latent = 0, l2_latent = 0,
         latent_optimizer = ((), [] :: ((nat \<Rightarrow> real) \<times> (nat \<times> real) list) list), degree = 2\<rparr> [(0::nat, 2::real), (1, 3)]
       = Inr (gradients_spec
        \<lparr>n_factors = 1, latents = (\<lambda>j l f. 5::real), l1_latent = 0, l2_latent = 0,
         latent_optimizer = ((), [] :: ((nat \<Rightarrow> real) \<times> (nat \<times> real) list) list), degree = 2\<rparr> [(0::nat, 2::real), (1, 3)])
   \<and> (\<exists>m'. update_latents (recording (\<lambda>opt w g. (opt, (\<lambda>f. 0)))) sgn
        \<lparr>n_factors = 1, latents = (\<lambda>j l f. 5::real), l1_latent = 0, l2_latent = 0,
         latent_optimizer = ((), [] :: ((nat \<Rightarrow> real) \<times> (nat \<times> real) list) list), degree = 2\<rparr> [(0::nat, 2::real), (1, 3)] 1 = Inr m'
       \<and> snd (latent_optimizer m') = [(\<lambda>f. 5, [(0, 30)]), (\<lambda>f. 5, [(0, 30)])])"
proof -
  let ?m = "\<lparr>n_factors = 1, latents = (\<lambda>j l f. 5::real), l1_latent = 0, l2_latent = 0,
         latent_optimizer = ((), [] :: ((nat \<Rightarrow> real) \<times> (nat \<times> real) list) list), degree = 2\<rparr>"
  let ?x = "[(0::nat, 2::real), (1, 3)]"
  have d: "distinct (keys ?x)" by (simp add: keys_def)
  have o: "orders 2 = [2]" by (simp add: orders_def upto.simps)
  have nz: "latents_nonzero ?m ?x" by (simp add: latents_nonzero_def keys_def o factors_def)
  have g: "update_latents_gradients ?m ?x = Inr (gradients_spec ?m ?x)"
    using d nz by (rule update_latents_gradients_Inr)
  have c: "concat (map (\<lambda>j. map (\<lambda>l. (latents ?m j l,
               penalized_gradient sgn ?m (gradients_spec ?m ?x) 1 j l))
                                  (orders (degree ?m))) (keys ?x)) =
           [(\<lambda>f. 5, [(0, 30)]), (\<lambda>f. 5, [(0, 30)])]"
    by (simp add: keys_def orders_def upto.simps penalized_gradient_def factors_def
        gradients_spec_def contribution_def value_at_def numeral_2_eq_2)
  from update_latents_uses_snapshot[OF d g, of "\<lambda>opt w g. (opt, (\<lambda>f. 0))" sgn 1]
  have e: "\<exists>m'. update_latents (recording (\<lambda>opt w g. (opt, (\<lambda>f. 0)))) sgn ?m ?x 1 = Inr m'
       \<and> snd (latent_optimizer m') = [(\<lambda>f. 5, [(0, 30)]), (\<lambda>f. 5, [(0, 30)])]"
    unfolding c by simp
  show ?thesis by (rule conjI[OF d conjI[OF g e]])
qed


section \<open>Construction\<close>

text \<open>
  Claim C3, amended. Neither constructor checks its configuration. Whenever the base
  constructor accepts the other arguments, \<^verbatim>\<open>HOFM.__init__\<close> succeeds for every degree and
  stores it as given; with a degree below 2 the range of orders is empty and the
  interaction sum is 0. Whenever the base constructor of the ensemble accepts the empty
  list, \<^verbatim>\<open>HedgeRegressor.__init__\<close> succeeds on it, with an empty weight sequence.
\<close>

theorem constructors_do_not_validate:
  "(BaseFM_init base_args = Inr b \<longrightarrow>
      (\<exists>m. HOFM_init BaseFM_init d base_args = Inr m \<and> degree m = d
           \<and> (d < 2 \<longrightarrow> orders (degree m) = [] \<and> calculate_interactions m x = Inr 0)))
   \<and> (Ensemble_init [] = Inr [] \<longrightarrow>
      HedgeRegressor_init Ensemble_init Squared [] loss_arg lr =
        Inr \<lparr>models = [], loss = (case loss_arg of None \<Rightarrow> Squared | Some l \<Rightarrow> l),
             learning_rate = lr, weights = []\<rparr>)"
proof (intro conjI impI)
  assume b: "BaseFM_init base_args = Inr b"
  let ?m = "\<lparr>n_factors = n_factors b, latents = latents b, l1_latent = l1_latent b,
               l2_latent = l2_latent b, latent_optimizer = latent_optimizer b, degree = d\<rparr>"
  have i: "HOFM_init BaseFM_init d base_args = Inr ?m" by (simp add: HOFM_init_def b)
  have "d < 2 \<longrightarrow> orders (degree ?m) = [] \<and> calculate_interactions ?m x = Inr 0"
    by (simp add: orders_def calculate_interactions_Inr)
  with i show "\<exists>m. HOFM_init BaseFM_init d base_args = Inr m \<and> degree m = d
           \<and> (d < 2 \<longrightarrow> orders (degree m) = [] \<and> calculate_interactions m x = Inr 0)"
    by (intro exI[of _ ?m]) simp
next
  assume "Ensemble_init [] = Inr []"
  then show "HedgeRegressor_init Ensemble_init Squared [] loss_arg lr =
        Inr \<lparr>models = [], loss = (case loss_arg of None \<Rightarrow> Squared | Some l \<Rightarrow> l),
             learning_rate = lr, weights = []\<rparr>"
    by (simp add: HedgeRegressor_init_def)
qed

theorem constructors_do_not_validate_witness:
  "(\<lambda>u::unit. Inr \<lparr>n_factors = 10, latents = (\<lambda>j::nat. \<lambda>l f. 1), l1_latent = 0, l2_latent = 0,
                  latent_optimizer = ()\<rparr> :: error + (nat, unit) base_fm) ()
     = Inr \<lparr>n_factors = 10, latents = (\<lambda>j l f. 1), l1_latent = 0, l2_latent = 0,
            latent_optimizer = ()\<rparr>
   \<and> (\<exists>m. HOFM_init
            (\<lambda>u::unit. Inr \<lparr>n_factors = 10, latents = (\<lambda>j::nat. \<lambda>l f. 1), l1_latent = 0,
                          l2_latent = 0, latent_optimizer = ()\<rparr>) 1 () = Inr m
          \<and> degree m = 1
          \<and> ((1::int) < 2 \<longrightarrow> orders (degree m) = []
               \<and> calculate_interactions m [(0, 2), (1, 3)] = Inr 0))
   \<and> (Inr [] :: error + real list) = Inr []
   \<and> HedgeRegressor_init Inr (\<lambda>yt yp. (yp - yt)\<^sup>2) ([] :: real list) None (1/2) =
        Inr \<lparr>models = [], loss = (\<lambda>yt yp. (yp - yt)\<^sup>2), learning_rate = 1/2, weights = []\<rparr>"
  using constructors_do_not_validate[of
      "\<lambda>u::unit. Inr \<lparr>n_factors = 10, latents = (\<lambda>j::nat. \<lambda>l f. 1), l1_latent = 0,
                          l2_latent = 0, latent_optimizer = ()\<rparr>"
      "()" "\<lparr>n_factors = 10, latents = (\<lambda>j::nat. \<lambda>l f. 1), l1_latent = 0,
                          l2_latent = 0, latent_optimizer = ()\<rparr>"
      1 "[(0, 2), (1, 3)]" Inr "\<lambda>yt yp. (yp - yt)\<^sup>2" None "1/2"]
  by simp

text \<open>
  Claim C3 as stated fails: \<^verbatim>\<open>degree\<close> is not among the arguments passed to the base
  constructor and is stored without a check, so a model with \<open>degree = 1\<close> is constructed
  whenever the base constructor succeeds on the other arguments.
\<close>

theorem hofm_degree_one_accepted:
  "HOFM_init
     (\<lambda>u::unit. Inr \<lparr>n_factors = 10, latents = (\<lambda>j::nat. \<lambda>l f. 1), l1_latent = 0,
                   l2_latent = 0, latent_optimizer = ()\<rparr>) 1 ()
   = Inr \<lparr>n_factors = 10, latents = (\<lambda>j l f. 1), l1_latent = 0, l2_latent = 0,
          latent_optimizer = (), degree = 1\<rparr>"
  by (simp add: HOFM_init_def)

end
